theory Spec2Isabelle
  imports Main "HOL-Library.Sublist"
begin

section \<open>Values: Immutable.js maps and lists over JavaScript scalars\<close>

text \<open>
  The program works on the parser's syntax trees after \<^verbatim>\<open>I.fromJS\<close>: every object of
  the tree is an Immutable map with string keys and every array an Immutable list.
  A map is kept as the list of its entries in the order \<^verbatim>\<open>forEach\<close> visits them:
  for a map of up to eight entries, which the library keeps as an array, the order
  of insertion; for a larger map, a hash trie, the order of the hashes of its keys
  (\<open>entries_in_order\<close> below). \<open>wf_val\<close> says that no key occurs twice.
\<close>

datatype jsval =
    Undefined
  | Null
  | JBool bool
  | JNum int
  | JStr string
  | JMap "(string \<times> jsval) list"
  | JList "jsval list"

datatype key = K string | Ix nat

type_synonym keypath = "key list"

text \<open>JavaScript truthiness (\<^verbatim>\<open>if (x)\<close>, \<^verbatim>\<open>!x\<close>, \<^verbatim>\<open>a && b\<close>): objects are always truthy.\<close>

fun truthy :: "jsval \<Rightarrow> bool" where
  "truthy Undefined = False"
| "truthy Null = False"
| "truthy (JBool b) = b"
| "truthy (JNum n) = (n \<noteq> 0)"
| "truthy (JStr s) = (s \<noteq> [])"
| "truthy (JMap es) = True"
| "truthy (JList xs) = True"

fun is_coll :: "jsval \<Rightarrow> bool" where
  "is_coll (JMap es) = True"
| "is_coll (JList xs) = True"
| "is_coll v = False"

fun is_map :: "jsval \<Rightarrow> bool" where
  "is_map (JMap es) = True"
| "is_map v = False"

text \<open>\<^verbatim>\<open>coll.get(k)\<close> on a map or a list; \<^verbatim>\<open>undefined\<close> for a key that is not there.\<close>

fun get_key :: "jsval \<Rightarrow> key \<Rightarrow> jsval" where
  "get_key (JMap es) (K k) = (case map_of es k of Some v \<Rightarrow> v | None \<Rightarrow> Undefined)"
| "get_key (JList xs) (Ix i) = (if i < length xs then xs ! i else Undefined)"
| "get_key v k = Undefined"

definition get :: "jsval \<Rightarrow> string \<Rightarrow> jsval" where
  "get v k = get_key v (K k)"

text \<open>\<^verbatim>\<open>coll.getIn(keypath)\<close>: \<^verbatim>\<open>undefined\<close> as soon as a step is missing.\<close>

fun getIn :: "jsval \<Rightarrow> keypath \<Rightarrow> jsval" where
  "getIn v [] = v"
| "getIn v (k # ks) = getIn (get_key v k) ks"

text \<open>\<^verbatim>\<open>map.set(k, v)\<close>: an existing entry keeps its place, a new one goes last.\<close>

fun set_entry :: "'k \<Rightarrow> 'v \<Rightarrow> ('k \<times> 'v) list \<Rightarrow> ('k \<times> 'v) list" where
  "set_entry k v [] = [(k, v)]"
| "set_entry k v ((k', v') # es) =
     (if k' = k then (k, v) # es else (k', v') # set_entry k v es)"

text \<open>
  \<^verbatim>\<open>coll.set(k, v)\<close>. A list set beyond its end is filled with \<^verbatim>\<open>undefined\<close>. The
  source sets keys of maps it has read before; a key of the wrong kind, or a
  receiver that is no collection, is \<open>None\<close> (the library throws or coerces there).
\<close>

fun set_key :: "jsval \<Rightarrow> key \<Rightarrow> jsval \<Rightarrow> jsval option" where
  "set_key (JMap es) (K k) v = Some (JMap (set_entry k v es))"
| "set_key (JList xs) (Ix i) v =
     Some (JList (if i < length xs then xs[i := v]
                  else xs @ replicate (i - length xs) Undefined @ [v]))"
| "set_key c k v = None"

text \<open>
  \<^verbatim>\<open>coll.setIn(keypath, v)\<close>, by \<^verbatim>\<open>updateIn\<close>: a missing step becomes a new map, a
  step through a scalar is the library's \<^verbatim>\<open>invalid keyPath\<close> error (\<open>None\<close>).
\<close>

fun setIn :: "jsval \<Rightarrow> keypath \<Rightarrow> jsval \<Rightarrow> jsval option" where
  "setIn c [] v = Some v"
| "setIn c (k # ks) v =
     (let c' = (if c = Undefined then JMap [] else c) in
      case setIn (get_key c' k) ks v of
        None \<Rightarrow> None
      | Some n \<Rightarrow> set_key c' k n)"

fun wf_val :: "jsval \<Rightarrow> bool" where
  "wf_val (JMap es) = (distinct (map fst es) \<and> (\<forall>e \<in> set es. wf_val (snd e)))"
| "wf_val (JList xs) = (\<forall>x \<in> set xs. wf_val x)"
| "wf_val v = True"

section \<open>Errors and the external collaborators\<close>

text \<open>
  What a \<^verbatim>\<open>throw\<close> of the source throws: \<^verbatim>\<open>throw new InputError(d)\<close> throws the
  Immutable map that \<^verbatim>\<open>InputError\<close> returns (\<open>Thrown\<close>); \<^verbatim>\<open>throw new Error(m)\<close> is
  \<open>JsError m\<close>; a method call on \<^verbatim>\<open>undefined\<close> or a call of a missing table entry is
  \<open>TypeError\<close>; the use of an undeclared variable is \<open>ReferenceError\<close>; what the
  parser throws is \<open>ParserError\<close> and what the collection library throws
  \<open>LibraryError\<close>. Every function that can throw returns \<open>exn + 'a\<close>.
\<close>

datatype exn =
    Thrown jsval
  | JsError string
  | TypeError
  | ReferenceError
  | ParserError
  | LibraryError

text \<open>
  The parser (esprima), the printer (escodegen), \<^verbatim>\<open>JSON.stringify\<close>, the library's
  \<^verbatim>\<open>toString\<close> of a collection, the \<^verbatim>\<open>stack\<close> of an error object and the hash of the
  collection library are not part of the program: they are the fields of
  \<open>externals\<close>, and a theorem holds for any of them. The printer is taken to return
  a string for every map or list. The parser returns plain objects and arrays, an
  object as the list of its properties in the order of their declaration.
  \<open>hash_rank ext keys k\<close> is the place the library's hash trie gives the key \<open>k\<close> in
  a map that got the keys \<open>keys\<close> in this order: a smaller number is visited earlier.
\<close>

record externals =
  escodegen_generate :: "jsval \<Rightarrow> string"
  esprima_parse :: "string \<Rightarrow> jsval option"
  json_stringify :: "jsval \<Rightarrow> string"
  coll_to_string :: "jsval \<Rightarrow> string"
  error_stack :: "exn \<Rightarrow> string"
  hash_rank :: "jsval list \<Rightarrow> jsval \<Rightarrow> int"

text \<open>
  The order in which \<^verbatim>\<open>forEach\<close>, \<^verbatim>\<open>map\<close>, \<^verbatim>\<open>merge\<close> and \<^verbatim>\<open>valueSeq\<close> visit the entries
  of an Immutable map, given the entries in the order of their first insertion: up
  to eight entries are an array and keep that order, more than eight are visited
  in the order of the hash trie. \<open>as_key\<close> makes the key the value that is hashed.
\<close>

definition entries_in_order ::
    "externals \<Rightarrow> ('k \<Rightarrow> jsval) \<Rightarrow> ('k \<times> 'v) list \<Rightarrow> ('k \<times> 'v) list" where
  "entries_in_order ext as_key es =
     (if length es \<le> 8 then es
      else sort_key (\<lambda>e. hash_rank ext (map (\<lambda>e. as_key (fst e)) es) (as_key (fst e))) es)"

definition and_then :: "exn + 'a \<Rightarrow> ('a \<Rightarrow> exn + 'b) \<Rightarrow> exn + 'b" where
  "and_then m g = (case m of Inl e \<Rightarrow> Inl e | Inr x \<Rightarrow> g x)"

text \<open>\<^verbatim>\<open>list.map(g)\<close>, \<^verbatim>\<open>list.filter(g)\<close> and \<^verbatim>\<open>list.some(g)\<close> for a \<open>g\<close> that can throw.\<close>

fun mapM :: "('a \<Rightarrow> exn + 'b) \<Rightarrow> 'a list \<Rightarrow> exn + 'b list" where
  "mapM g [] = Inr []"
| "mapM g (x # xs) =
     and_then (g x) (\<lambda>y. and_then (mapM g xs) (\<lambda>ys. Inr (y # ys)))"

fun filterM :: "('a \<Rightarrow> exn + bool) \<Rightarrow> 'a list \<Rightarrow> exn + 'a list" where
  "filterM g [] = Inr []"
| "filterM g (x # xs) =
     and_then (g x) (\<lambda>b. and_then (filterM g xs) (\<lambda>ys. Inr (if b then x # ys else ys)))"

fun someM :: "('a \<Rightarrow> exn + bool) \<Rightarrow> 'a list \<Rightarrow> exn + bool" where
  "someM g [] = Inr False"
| "someM g (x # xs) = and_then (g x) (\<lambda>b. if b then Inr True else someM g xs)"

text \<open>A method of a collection called on a scalar, and a list method on a value that is no list.\<close>

definition get_m :: "jsval \<Rightarrow> string \<Rightarrow> exn + jsval" where
  "get_m v k = (if is_coll v then Inr (get v k) else Inl TypeError)"

definition getIn_m :: "jsval \<Rightarrow> keypath \<Rightarrow> exn + jsval" where
  "getIn_m v kp = (if is_coll v then Inr (getIn v kp) else Inl TypeError)"

definition as_list :: "jsval \<Rightarrow> exn + jsval list" where
  "as_list v = (case v of JList xs \<Rightarrow> Inr xs | _ \<Rightarrow> Inl TypeError)"

definition setIn_m :: "jsval \<Rightarrow> keypath \<Rightarrow> jsval \<Rightarrow> exn + jsval" where
  "setIn_m c kp v =
     (if is_coll c then (case setIn c kp v of None \<Rightarrow> Inl LibraryError | Some c' \<Rightarrow> Inr c')
      else Inl TypeError)"

definition set_m :: "jsval \<Rightarrow> string \<Rightarrow> jsval \<Rightarrow> exn + jsval" where
  "set_m c k v = setIn_m c [K k] v"

text \<open>String concatenation with \<^verbatim>\<open>+\<close>: the decimal form of a number, a string as it is.\<close>

fun show_nat :: "nat \<Rightarrow> string" where
  "show_nat n =
     (if n < 10 then [''0123456789'' ! n]
      else show_nat (n div 10) @ [''0123456789'' ! (n mod 10)])"

definition show_int :: "int \<Rightarrow> string" where
  "show_int i = (if i < 0 then CHR ''-'' # show_nat (nat (- i)) else show_nat (nat i))"

fun to_string :: "externals \<Rightarrow> jsval \<Rightarrow> string" where
  "to_string ext Undefined = ''undefined''"
| "to_string ext Null = ''null''"
| "to_string ext (JBool b) = (if b then ''true'' else ''false'')"
| "to_string ext (JNum n) = show_int n"
| "to_string ext (JStr s) = s"
| "to_string ext (JMap es) = coll_to_string ext (JMap es)"
| "to_string ext (JList xs) = coll_to_string ext (JList xs)"

text \<open>\<^verbatim>\<open>coll.join(sep)\<close>: \<^verbatim>\<open>null\<close> and \<^verbatim>\<open>undefined\<close> are joined as the empty string.\<close>

fun join :: "externals \<Rightarrow> string \<Rightarrow> jsval list \<Rightarrow> string" where
  "join ext sep [] = []"
| "join ext sep [v] = (if v = Undefined \<or> v = Null then [] else to_string ext v)"
| "join ext sep (v # w # vs) =
     (if v = Undefined \<or> v = Null then [] else to_string ext v) @ sep @ join ext sep (w # vs)"

section \<open>Utilities\<close>

text \<open>
  \<^verbatim>\<open>duplicatedValues\<close>: the loop over the list keeps the two arrays \<^verbatim>\<open>dupes\<close> and
  \<^verbatim>\<open>seen\<close>. The set returned is kept as the list \<^verbatim>\<open>dupes\<close>, which has no value twice.
\<close>

definition duplicatedValues_step :: "'a list \<times> 'a list \<Rightarrow> 'a \<Rightarrow> 'a list \<times> 'a list" where
  "duplicatedValues_step st x =
     (case st of (dupes, seen) \<Rightarrow>
        if x \<in> set seen \<and> x \<notin> set dupes then (dupes @ [x], seen) else (dupes, seen @ [x]))"

definition duplicatedValues :: "'a list \<Rightarrow> 'a list" where
  "duplicatedValues xs = fst (foldl duplicatedValues_step ([], []) xs)"

definition InputError :: "string \<Rightarrow> jsval" where
  "InputError description =
     JMap [(''isInputError'', JBool True), (''description'', JStr description)]"

definition isInputError :: "exn \<Rightarrow> bool" where
  "isInputError e = (case e of Thrown (JMap es) \<Rightarrow> truthy (get (JMap es) ''isInputError'') | _ \<Rightarrow> False)"

section \<open>Matchers\<close>

text \<open>
  Each \<^verbatim>\<open>matcher(pattern)\<close> written out: \<^verbatim>\<open>matches\<close> compares every field of the
  pattern with the same field of the node (a string or a boolean by equality, a
  nested pattern field by field, a function by its result) and fails on a node
  that is no map (\<open>get\<close> is \<open>Undefined\<close> there).
\<close>

definition isStringMarker :: "jsval \<Rightarrow> bool" where
  "isStringMarker ast \<longleftrightarrow>
     get ast ''type'' = JStr ''CallExpression'' \<and>
     get (get ast ''callee'') ''type'' = JStr ''Identifier'' \<and>
     get (get ast ''callee'') ''name'' = JStr ''i18n''"

definition isElementMarker :: "jsval \<Rightarrow> bool" where
  "isElementMarker ast \<longleftrightarrow>
     get ast ''type'' = JStr ''XJSElement'' \<and>
     get (get ast ''openingElement'') ''type'' = JStr ''XJSOpeningElement'' \<and>
     get (get ast ''openingElement'') ''selfClosing'' = JBool False \<and>
     get (get (get ast ''openingElement'') ''name'') ''type'' = JStr ''XJSIdentifier'' \<and>
     get (get (get ast ''openingElement'') ''name'') ''name'' = JStr ''I18N''"

definition isMarker :: "jsval \<Rightarrow> bool" where
  "isMarker ast \<longleftrightarrow> isStringMarker ast \<or> isElementMarker ast"

definition isString :: "jsval \<Rightarrow> bool" where
  "isString thing = (case thing of JStr s \<Rightarrow> True | _ \<Rightarrow> False)"

definition isStringLiteral :: "jsval \<Rightarrow> bool" where
  "isStringLiteral ast \<longleftrightarrow> get ast ''type'' = JStr ''Literal'' \<and> isString (get ast ''value'')"

definition isJsxElement :: "jsval \<Rightarrow> bool" where
  "isJsxElement ast \<longleftrightarrow> get ast ''type'' = JStr ''XJSElement''"

definition isIdentifier :: "jsval \<Rightarrow> bool" where
  "isIdentifier ast \<longleftrightarrow> get ast ''type'' = JStr ''Identifier''"

lemma size_map_of:
  "map_of es k = Some v \<Longrightarrow> size v < Suc (size_list (size_prod (\<lambda>_. 0) size) es)"
  by (induction es) (auto split: if_splits)

lemma size_member: "x \<in> set xs \<Longrightarrow> size x \<le> size_list size xs"
  by (induction xs) auto

lemma size_get_key: "is_coll v \<Longrightarrow> size (get_key v k) < size v"
proof (cases v)
  case (JMap es)
  then show ?thesis
    by (cases k) (auto split: option.splits dest: size_map_of)
next
  case (JList xs)
  then show ?thesis
    by (cases k) (auto simp: less_Suc_eq_le intro: size_member)
qed simp_all

lemma size_get: "is_coll v \<Longrightarrow> size (get v k) < size v"
  by (simp add: get_def size_get_key)

lemma get_JStr_coll: "get v k = JStr s \<Longrightarrow> is_coll v"
  by (cases v) (simp_all add: get_def)

function isSimpleMemberExpression :: "jsval \<Rightarrow> bool" where
  "isSimpleMemberExpression ast =
     (if get ast ''type'' = JStr ''MemberExpression'' then
        get ast ''computed'' = JBool False \<and>
        (isIdentifier (get ast ''object'') \<or> isSimpleMemberExpression (get ast ''object'')) \<and>
        isIdentifier (get ast ''property'')
      else False)"
  by pat_completeness auto
termination
  by (relation "measure size") (auto dest: get_JStr_coll simp: size_get)

declare isSimpleMemberExpression.simps [simp del]

definition isNamedExpression :: "jsval \<Rightarrow> bool" where
  "isNamedExpression ast \<longleftrightarrow> isIdentifier ast \<or> isSimpleMemberExpression ast"

section \<open>AST utilities\<close>

text \<open>
  \<^verbatim>\<open>I.fromJS\<close> makes an Immutable map of every plain object, setting its properties
  in the order of their declaration, and an Immutable list of every array.
\<close>

fun fromJS :: "externals \<Rightarrow> jsval \<Rightarrow> jsval" where
  "fromJS ext (JMap es) =
     JMap (entries_in_order ext JStr (map (\<lambda>(k, v). (k, fromJS ext v)) es))"
| "fromJS ext (JList xs) = JList (map (fromJS ext) xs)"
| "fromJS ext Undefined = Undefined"
| "fromJS ext Null = Null"
| "fromJS ext (JBool b) = JBool b"
| "fromJS ext (JNum n) = JNum n"
| "fromJS ext (JStr s) = JStr s"

text \<open>A plain tree in which no object has more than eight properties.\<close>

fun small_maps :: "jsval \<Rightarrow> bool" where
  "small_maps (JMap es) = (length es \<le> 8 \<and> (\<forall>e \<in> set es. small_maps (snd e)))"
| "small_maps (JList xs) = (\<forall>x \<in> set xs. small_maps x)"
| "small_maps v = True"

definition parse :: "externals \<Rightarrow> string \<Rightarrow> exn + jsval" where
  "parse ext src =
     (case esprima_parse ext src of None \<Rightarrow> Inl ParserError | Some t \<Rightarrow> Inr (fromJS ext t))"

definition parseFragment :: "externals \<Rightarrow> string \<Rightarrow> exn + jsval" where
  "parseFragment ext src =
     and_then (parse ext src) (\<lambda>t. getIn_m t [K ''body'', Ix 0, K ''expression''])"

text \<open>\<^verbatim>\<open>generate(ast)\<close> is \<^verbatim>\<open>escodegen.generate(ast.toJS())\<close>: a TypeError on a scalar.\<close>

definition generate :: "externals \<Rightarrow> jsval \<Rightarrow> exn + string" where
  "generate ext ast = (if is_coll ast then Inr (escodegen_generate ext ast) else Inl TypeError)"

definition generateOpening :: "externals \<Rightarrow> jsval \<Rightarrow> exn + string" where
  "generateOpening ext jsxExpressionAst =
     and_then (get_m jsxExpressionAst ''openingElement'') (generate ext)"

definition makeLiteralExpressionAst :: "externals \<Rightarrow> string \<Rightarrow> exn + jsval" where
  "makeLiteralExpressionAst ext v = parseFragment ext v"

definition componentNameAst :: "externals \<Rightarrow> jsval \<Rightarrow> exn + jsval" where
  "componentNameAst ext jsxElementAst =
     and_then (getIn_m jsxElementAst [K ''openingElement'', K ''name'']) (\<lambda>nameAst.
     and_then (get_m nameAst ''type'') (\<lambda>type.
       if type = JStr ''XJSNamespacedName'' then Inr (get nameAst ''namespace'')
       else if type = JStr ''XJSIdentifier'' \<or> type = JStr ''XJSMemberExpression''
       then Inr nameAst
       else and_then (generateOpening ext jsxElementAst) (\<lambda>opening.
         Inl (JsError (''Unknown component name type '' @ to_string ext type @
                       '' for component '' @ opening)))))"

definition componentName :: "externals \<Rightarrow> jsval \<Rightarrow> exn + string" where
  "componentName ext jsxElementAst =
     and_then (componentNameAst ext jsxElementAst) (generate ext)"

definition attributes :: "jsval \<Rightarrow> exn + jsval" where
  "attributes jsxElementAst = getIn_m jsxElementAst [K ''openingElement'', K ''attributes'']"

definition updateAttributes :: "jsval \<Rightarrow> (jsval \<Rightarrow> exn + jsval) \<Rightarrow> exn + jsval" where
  "updateAttributes jsxElementAst g =
     and_then (attributes jsxElementAst) (\<lambda>old.
     and_then (g old) (\<lambda>new.
       setIn_m jsxElementAst [K ''openingElement'', K ''attributes''] new))"

definition attributeName :: "jsval \<Rightarrow> exn + jsval" where
  "attributeName attributeAst = getIn_m attributeAst [K ''name'', K ''name'']"

definition attributeValue :: "jsval \<Rightarrow> exn + jsval" where
  "attributeValue attributeAst = getIn_m attributeAst [K ''value'', K ''value'']"

definition attributeWithName :: "jsval \<Rightarrow> string \<Rightarrow> exn + jsval" where
  "attributeWithName jsxElementAst name =
     and_then (attributes jsxElementAst) (\<lambda>attrs.
     and_then (as_list attrs) (\<lambda>xs.
     and_then (filterM (\<lambda>attrib. and_then (attributeName attrib) (\<lambda>n. Inr (n = JStr name))) xs)
       (\<lambda>found. case found of [] \<Rightarrow> Inr Undefined | a # rest \<Rightarrow> attributeValue a)))"

definition removeAttributeWithName :: "jsval \<Rightarrow> string \<Rightarrow> exn + jsval" where
  "removeAttributeWithName jsxElementAst name =
     updateAttributes jsxElementAst (\<lambda>attrs.
       and_then (as_list attrs) (\<lambda>xs.
       and_then (filterM (\<lambda>attrib. and_then (attributeName attrib) (\<lambda>n. Inr (n \<noteq> JStr name))) xs)
         (\<lambda>kept. Inr (JList kept))))"

definition componentDesignation :: "externals \<Rightarrow> jsval \<Rightarrow> exn + jsval" where
  "componentDesignation ext jsxElementAst =
     and_then (getIn_m jsxElementAst [K ''openingElement'', K ''name'']) (\<lambda>nameAst.
     and_then (get_m nameAst ''type'') (\<lambda>type.
       if type = JStr ''XJSNamespacedName''
       then and_then (generate ext (get nameAst ''name'')) (\<lambda>s. Inr (JStr s))
       else attributeWithName jsxElementAst ''i18n-designation''))"

definition setJsxElementName :: "jsval \<Rightarrow> jsval \<Rightarrow> exn + jsval" where
  "setJsxElementName jsxElementAst nameAst =
     and_then (getIn_m jsxElementAst [K ''openingElement'', K ''selfClosing'']) (\<lambda>selfClosing.
       if truthy selfClosing
       then setIn_m jsxElementAst [K ''openingElement'', K ''name''] nameAst
       else and_then (setIn_m jsxElementAst [K ''openingElement'', K ''name''] nameAst)
              (\<lambda>opened. setIn_m opened [K ''closingElement'', K ''name''] nameAst))"

definition rewriteDesignationToNamespaceSyntax :: "externals \<Rightarrow> jsval \<Rightarrow> exn + jsval" where
  "rewriteDesignationToNamespaceSyntax ext jsxElementAst =
     and_then (componentName ext jsxElementAst) (\<lambda>name.
     and_then (componentDesignation ext jsxElementAst) (\<lambda>designation.
     and_then (attributeWithName jsxElementAst ''i18n-designation'') (\<lambda>attribute.
       if truthy designation \<and> truthy attribute then
         (let namespacedName = JMap [
            (''type'', JStr ''XJSNamespacedName''),
            (''name'', JMap [(''type'', JStr ''XJSIdentifier''), (''name'', designation)]),
            (''namespace'', JMap [(''type'', JStr ''XJSIdentifier''), (''name'', JStr name)])]
          in and_then (setJsxElementName jsxElementAst namespacedName) (\<lambda>withNamespace.
             updateAttributes withNamespace (\<lambda>attrs.
               and_then (as_list attrs) (\<lambda>xs.
               and_then (filterM (\<lambda>a. and_then (attributeName a)
                                    (\<lambda>n. Inr (n \<noteq> JStr ''i18n-designation''))) xs)
                 (\<lambda>kept. Inr (JList kept))))))
       else Inr jsxElementAst)))"

definition removeDesignation :: "externals \<Rightarrow> jsval \<Rightarrow> exn + jsval" where
  "removeDesignation ext jsxElementAst =
     and_then (componentNameAst ext jsxElementAst) (\<lambda>nameAst.
     and_then (setJsxElementName jsxElementAst nameAst) (\<lambda>renamed.
       removeAttributeWithName renamed ''i18n-designation''))"

text \<open>
  \<^verbatim>\<open>attributeMap\<close> builds an Immutable map whose keys are the attributes' name nodes
  (compared by value, as \<^verbatim>\<open>I.is\<close> does). Such a map is kept as the list of its entries
  in the order of their first insertion, whatever its size; that is not the order in
  which the library visits a map of more than eight entries, so whoever visits the
  entries (\<^verbatim>\<open>merge\<close>, \<^verbatim>\<open>valueSeq\<close>) takes them through \<open>entries_in_order\<close>.
  \<^verbatim>\<open>I.Map(pairs)\<close> sets the pairs one after the other in an empty map, and
  \<^verbatim>\<open>a.merge(b)\<close> sets the entries of \<open>b\<close>, as \<open>b\<close> is visited, in \<open>a\<close>.
\<close>

definition map_of_pairs :: "('k \<times> 'v) list \<Rightarrow> ('k \<times> 'v) list" where
  "map_of_pairs ps = foldl (\<lambda>m p. set_entry (fst p) (snd p) m) [] ps"

definition merge ::
    "externals \<Rightarrow> (jsval \<times> jsval) list \<Rightarrow> (jsval \<times> jsval) list \<Rightarrow> (jsval \<times> jsval) list" where
  "merge ext a b =
     foldl (\<lambda>m p. set_entry (fst p) (snd p) m) a (entries_in_order ext (\<lambda>k. k) b)"

definition attributeMap :: "jsval \<Rightarrow> exn + (jsval \<times> jsval) list" where
  "attributeMap attrs =
     and_then (as_list attrs) (\<lambda>xs.
     and_then (mapM (\<lambda>a. and_then (get_m a ''name'') (\<lambda>n.
                          and_then (get_m a ''value'') (\<lambda>v. Inr (n, v)))) xs)
       (\<lambda>ps. Inr (map_of_pairs ps)))"

definition attributesFromMap :: "externals \<Rightarrow> (jsval \<times> jsval) list \<Rightarrow> jsval" where
  "attributesFromMap ext m =
     JList (map (\<lambda>p. JMap [(''type'', JStr ''XJSAttribute''), (''name'', fst p), (''value'', snd p)])
              (entries_in_order ext (\<lambda>k. k) m))"

text \<open>
  The entries \<^verbatim>\<open>attributeMap\<close> collects from a list of attribute nodes, and the attribute
  nodes \<^verbatim>\<open>attributesFromMap\<close> makes of the entries it visits, as plain functions.
\<close>

definition attribute_pairs :: "jsval list \<Rightarrow> (jsval \<times> jsval) list" where
  "attribute_pairs attrs = map_of_pairs (map (\<lambda>a. (get a ''name'', get a ''value'')) attrs)"

definition attribute_nodes :: "(jsval \<times> jsval) list \<Rightarrow> jsval list" where
  "attribute_nodes m =
     map (\<lambda>p. JMap [(''type'', JStr ''XJSAttribute''), (''name'', fst p), (''value'', snd p)]) m"

text \<open>
  The table \<^verbatim>\<open>allowedAttributesByComponentName\<close>. It is a plain object, so reading it
  at a name that \<^verbatim>\<open>Object.prototype\<close> defines gives a function, which has no
  \<^verbatim>\<open>indexOf\<close>: a TypeError.
\<close>

definition allowedAttributesByComponentName :: "string \<Rightarrow> string list option" where
  "allowedAttributesByComponentName name = (if name = ''a'' then Some [''href''] else None)"

definition object_prototype_names :: "string list" where
  "object_prototype_names =
     [''constructor'', ''toString'', ''toLocaleString'', ''valueOf'', ''hasOwnProperty'',
      ''isPrototypeOf'', ''propertyIsEnumerable'', ''__proto__'', ''__defineGetter__'',
      ''__defineSetter__'', ''__lookupGetter__'', ''__lookupSetter__'']"

definition attributeIsSafe :: "string \<Rightarrow> jsval \<Rightarrow> exn + bool" where
  "attributeIsSafe cname attributeAst =
     (if cname = [] then Inl (JsError ''Component name missing.'')
      else if cname \<in> set object_prototype_names then Inl TypeError
      else
        (let forComponent =
           (case allowedAttributesByComponentName cname of
              Some l \<Rightarrow> l | None \<Rightarrow> [])
         in and_then (attributeName attributeAst) (\<lambda>n. Inr (n \<in> set (map JStr forComponent)))))"

definition hasUnsafeAttributes :: "externals \<Rightarrow> jsval \<Rightarrow> exn + bool" where
  "hasUnsafeAttributes ext jsxElementAst =
     and_then (componentName ext jsxElementAst) (\<lambda>name.
     and_then (attributes jsxElementAst) (\<lambda>attrs.
     and_then (as_list attrs) (\<lambda>xs.
       someM (\<lambda>a. and_then (attributeIsSafe name a) (\<lambda>safe. Inr (\<not> safe))) xs)))"

definition withSafeAttributesOnly :: "externals \<Rightarrow> jsval \<Rightarrow> exn + jsval" where
  "withSafeAttributesOnly ext jsxElementAst =
     and_then (componentName ext jsxElementAst) (\<lambda>name.
       updateAttributes jsxElementAst (\<lambda>attrs.
         and_then (as_list attrs) (\<lambda>xs.
         and_then (filterM (attributeIsSafe name) xs) (\<lambda>kept. Inr (JList kept)))))"

text \<open>What the recursive functions need to be accepted: the calls are on children of the node.\<close>

lemma and_then_cong [fundef_cong]:
  "m = m' \<Longrightarrow> (\<And>x. m' = Inr x \<Longrightarrow> g x = g' x) \<Longrightarrow> and_then m g = and_then m' g'"
  by (simp add: and_then_def split: sum.splits)

lemma mapM_cong [fundef_cong]:
  "xs = ys \<Longrightarrow> (\<And>x. x \<in> set ys \<Longrightarrow> g x = g' x) \<Longrightarrow> mapM g xs = mapM g' ys"
proof (induction ys arbitrary: xs)
  case Nil
  then show ?case by simp
next
  case (Cons y ys)
  then have "mapM g ys = mapM g' ys" by simp
  with Cons show ?case by simp
qed

lemma and_then_simps [simp]:
  "and_then (Inr x) g = g x"
  "and_then (Inl e) g = Inl e"
  by (simp_all add: and_then_def)

lemma and_then_Inr: "and_then m g = Inr y \<longleftrightarrow> (\<exists>x. m = Inr x \<and> g x = Inr y)"
  by (simp add: and_then_def split: sum.splits)

lemma as_list_Inr: "as_list v = Inr xs \<longleftrightarrow> v = JList xs"
  by (cases v) (simp_all add: as_list_def)

lemma child_smaller: "as_list (get v k) = Inr xs \<Longrightarrow> x \<in> set xs \<Longrightarrow> size x < size v"
proof -
  assume a: "as_list (get v k) = Inr xs" and x: "x \<in> set xs"
  then have g: "get v k = JList xs" by (simp add: as_list_Inr)
  then have "is_coll v" by (cases v) (simp_all add: get_def)
  then have "size (JList xs) < size v" using g size_get [of v k] by simp
  moreover have "size x \<le> size_list size xs" using x by (rule size_member)
  ultimately show ?thesis by simp
qed

lemma get_set_entry_other:
  "k' \<noteq> k \<Longrightarrow> map_of (set_entry k v es) k' = map_of es k'"
  by (induction es) auto

lemma map_of_set_entry_eq:
  "map_of (set_entry k v es) k' = (if k' = k then Some v else map_of es k')"
  by (induction es) auto

lemma setIn_m_other:
  "setIn_m c (K k # ks) v = Inr c' \<Longrightarrow> k' \<noteq> k \<Longrightarrow> get c' k' = get c k'"
  by (cases c)
     (auto simp: setIn_m_def get_def Let_def get_set_entry_other split: option.splits if_splits)

lemma updateAttributes_children:
  "updateAttributes el g = Inr el' \<Longrightarrow> get el' ''children'' = get el ''children''"
  by (auto simp: updateAttributes_def and_then_Inr dest!: setIn_m_other [where k' = "''children''"])

lemma setJsxElementName_children:
  "setJsxElementName el n = Inr el' \<Longrightarrow> get el' ''children'' = get el ''children''"
  by (auto simp: setJsxElementName_def and_then_Inr split: if_splits
           dest!: setIn_m_other [where k' = "''children''"])

lemma rewriteDesignationToNamespaceSyntax_children:
  "rewriteDesignationToNamespaceSyntax ext el = Inr el' \<Longrightarrow>
     get el' ''children'' = get el ''children''"
  by (auto simp: rewriteDesignationToNamespaceSyntax_def and_then_Inr Let_def split: if_splits
           dest!: updateAttributes_children setJsxElementName_children)

lemma withSafeAttributesOnly_children:
  "withSafeAttributesOnly ext el = Inr el' \<Longrightarrow> get el' ''children'' = get el ''children''"
  by (auto simp: withSafeAttributesOnly_def and_then_Inr dest!: updateAttributes_children)

lemma removeDesignation_children:
  "removeDesignation ext el = Inr el' \<Longrightarrow> get el' ''children'' = get el ''children''"
  by (auto simp: removeDesignation_def removeAttributeWithName_def and_then_Inr
           dest!: updateAttributes_children setJsxElementName_children)

section \<open>Named expressions, finding definitions of\<close>

text \<open>
  A definition is a pair of a name (a designation or the printed form of a named
  expression) and what it stands for (the list of the hidden attributes or the
  expression); the definitions of a message are the Immutable map of the pairs.
\<close>

definition nameAndExpressionForNamedExpression :: "externals \<Rightarrow> jsval \<Rightarrow> exn + (string \<times> jsval)" where
  "nameAndExpressionForNamedExpression ext ast =
     and_then (generate ext ast) (\<lambda>name. Inr (name, ast))"

definition namedExpressionDefinitionsInJsxExpressionContainer ::
    "externals \<Rightarrow> jsval \<Rightarrow> exn + (jsval \<times> jsval) list" where
  "namedExpressionDefinitionsInJsxExpressionContainer ext ast =
     (if isNamedExpression (get ast ''expression'') then
        and_then (nameAndExpressionForNamedExpression ext (get ast ''expression''))
          (\<lambda>definition. Inr [(JStr (fst definition), snd definition)])
      else Inr [])"

function namedExpressionDefinitions' :: "externals \<Rightarrow> jsval \<Rightarrow> exn + (jsval \<times> jsval) list"
  and namedExpressionDefinitionsInJsxElement ::
    "externals \<Rightarrow> jsval \<Rightarrow> exn + (jsval \<times> jsval) list" where
  "namedExpressionDefinitions' ext ast =
     and_then (get_m ast ''type'') (\<lambda>type.
       if type = JStr ''XJSElement'' then namedExpressionDefinitionsInJsxElement ext ast
       else if type = JStr ''XJSExpressionContainer''
       then namedExpressionDefinitionsInJsxExpressionContainer ext ast
       else Inr [])"
| "namedExpressionDefinitionsInJsxElement ext ast =
     and_then (attributes ast) (\<lambda>attrs.
     and_then (as_list attrs) (\<lambda>xs.
     and_then (filterM (\<lambda>attrib. and_then (componentName ext ast) (\<lambda>name.
                                  and_then (attributeIsSafe name attrib) (\<lambda>safe. Inr (\<not> safe)))) xs)
       (\<lambda>hiddenAttributes.
     and_then
       (if hiddenAttributes = [] then Inr []
        else and_then (componentDesignation ext ast) (\<lambda>designation.
          if \<not> truthy designation
          then and_then (generateOpening ext ast) (\<lambda>opening.
                 Inl (Thrown (InputError (''Element needs a designation: '' @ opening))))
          else Inr [(designation, JList hiddenAttributes)]))
       (\<lambda>attributeDefinition.
     and_then (as_list (get ast ''children'')) (\<lambda>children.
     and_then (mapM (namedExpressionDefinitions' ext) children) (\<lambda>defs.
       Inr (attributeDefinition @ concat defs)))))))"
  by pat_completeness auto
termination
  by (relation "measure (\<lambda>x. case x of Inl (ext, ast) \<Rightarrow> 2 * size ast + 1
                                        | Inr (ext, ast) \<Rightarrow> 2 * size ast)")
     (auto dest: child_smaller)

declare namedExpressionDefinitions'.simps [simp del]
declare namedExpressionDefinitionsInJsxElement.simps [simp del]

definition namedExpressionDefinitions :: "externals \<Rightarrow> jsval \<Rightarrow> exn + (jsval \<times> jsval) list" where
  "namedExpressionDefinitions ext ast =
     and_then (namedExpressionDefinitions' ext ast) (\<lambda>listOfPairs.
       let names = map fst listOfPairs;
           dupes = duplicatedValues names
       in if length dupes \<noteq> 0
          then Inl (Thrown (InputError
                 (''Message has two named expressions with the same name: '' @
                  join ext '', '' dupes)))
          else Inr (map_of_pairs listOfPairs))"

definition definitions_get :: "(jsval \<times> jsval) list \<Rightarrow> jsval \<Rightarrow> jsval" where
  "definitions_get definitions name =
     (case map_of definitions name of Some v \<Rightarrow> v | None \<Rightarrow> Undefined)"

section \<open>Validate\<close>

definition validateCallExpression :: "externals \<Rightarrow> jsval \<Rightarrow> exn + unit" where
  "validateCallExpression ext ast =
     (if \<not> isStringMarker ast
      then and_then (generate ext ast) (\<lambda>printed.
             Inl (JsError (''Internal error: tried to sanitize call expression: '' @ printed)))
      else Inr ())"

definition validateJsxExpressionContainer :: "externals \<Rightarrow> jsval \<Rightarrow> exn + unit" where
  "validateJsxExpressionContainer ext ast =
     (let expression = get ast ''expression'' in
      if \<not> isNamedExpression expression
      then and_then (generate ext ast) (\<lambda>printed.
             Inl (Thrown (InputError (''Message contains a non-named expression: '' @ printed))))
      else Inr ())"

function validateMessage :: "externals \<Rightarrow> jsval \<Rightarrow> exn + jsval"
  and validateJsxElement :: "externals \<Rightarrow> jsval \<Rightarrow> exn + unit" where
  "validateMessage ext ast =
     and_then (get_m ast ''type'') (\<lambda>type.
     and_then
       (if type = JStr ''CallExpression'' then validateCallExpression ext ast
        else if type = JStr ''XJSElement'' then validateJsxElement ext ast
        else if type = JStr ''XJSExpressionContainer'' then validateJsxExpressionContainer ext ast
        else Inr ())
       (\<lambda>u. Inr ast))"
| "validateJsxElement ext ast =
     and_then (namedExpressionDefinitions ext ast) (\<lambda>definitions.
     and_then (hasUnsafeAttributes ext ast) (\<lambda>unsafe.
     and_then (if unsafe
               then and_then (componentDesignation ext ast) (\<lambda>d. Inr (\<not> truthy d))
               else Inr False) (\<lambda>undesignated.
       if undesignated
       then and_then (generateOpening ext ast) (\<lambda>opening.
              Inl (Thrown (InputError (''Element needs a designation: '' @ opening))))
       else
     and_then (if isElementMarker ast
               then and_then (as_list (get ast ''children''))
                      (\<lambda>children. Inr (list_ex isElementMarker children))
               else Inr False) (\<lambda>nested.
       if nested
       then and_then (generate ext ast) (\<lambda>printed.
              Inl (Thrown (InputError
                (''Don'' @ [CHR 0x27] @ ''t directly nest <I18N> tags: '' @ printed))))
       else
     and_then (as_list (get ast ''children'')) (\<lambda>children.
     and_then (mapM (validateMessage ext) children) (\<lambda>validated. Inr ()))))))"
  by pat_completeness auto
termination
  by (relation "measure (\<lambda>x. case x of Inl (ext, ast) \<Rightarrow> 2 * size ast + 1
                                        | Inr (ext, ast) \<Rightarrow> 2 * size ast)")
     (auto dest: child_smaller)

declare validateMessage.simps [simp del]
declare validateJsxElement.simps [simp del]

definition validateTranslation :: "externals \<Rightarrow> jsval \<Rightarrow> jsval \<Rightarrow> exn + jsval" where
  "validateTranslation ext translation original =
     and_then (namedExpressionDefinitions ext translation) (\<lambda>definitions. Inr translation)"

section \<open>Sanitize\<close>

definition sanitizeJsxExpressionContainer :: "externals \<Rightarrow> jsval \<Rightarrow> exn + jsval" where
  "sanitizeJsxExpressionContainer ext ast =
     and_then (nameAndExpressionForNamedExpression ext (get ast ''expression''))
       (\<lambda>name_expression.
     and_then (makeLiteralExpressionAst ext (fst name_expression)) (\<lambda>literal.
       set_m ast ''expression'' literal))"

function sanitize :: "externals \<Rightarrow> jsval \<Rightarrow> exn + jsval"
  and sanitizeJsxElement :: "externals \<Rightarrow> jsval \<Rightarrow> exn + jsval" where
  "sanitize ext ast =
     and_then (get_m ast ''type'') (\<lambda>type.
       if type = JStr ''Literal'' then Inr ast
       else if type = JStr ''CallExpression'' then Inr ast
       else if type = JStr ''XJSElement'' then sanitizeJsxElement ext ast
       else if type = JStr ''XJSExpressionContainer'' then sanitizeJsxExpressionContainer ext ast
       else if type = JStr ''XJSEmptyExpression'' then Inr ast
       else Inl TypeError)"
| "sanitizeJsxElement ext ast =
     and_then (rewriteDesignationToNamespaceSyntax ext ast) (\<lambda>rewritten.
     and_then (withSafeAttributesOnly ext rewritten) (\<lambda>safe.
     and_then (as_list (get safe ''children'')) (\<lambda>children.
     and_then (mapM (sanitize ext) children) (\<lambda>sanitized.
       set_m safe ''children'' (JList sanitized)))))"
  by pat_completeness auto
termination
proof (relation "measure (\<lambda>x. case x of Inl (ext, ast) \<Rightarrow> 2 * size ast + 1
                                          | Inr (ext, ast) \<Rightarrow> 2 * size ast)",
       goal_cases)
  case (3 ext ast rewritten safe children x)
  then have "as_list (get ast ''children'') = Inr children"
    by (simp add: rewriteDesignationToNamespaceSyntax_children withSafeAttributesOnly_children)
  with 3 show ?case by (auto dest: child_smaller)
qed auto

declare sanitize.simps [simp del]
declare sanitizeJsxElement.simps [simp del]

section \<open>Reconstitute\<close>

definition reconstituteJsxExpressionContainer ::
    "externals \<Rightarrow> jsval \<Rightarrow> (jsval \<times> jsval) list \<Rightarrow> exn + jsval" where
  "reconstituteJsxExpressionContainer ext translatedAst definitions =
     (let expr = get translatedAst ''expression'' in
      if \<not> isNamedExpression expr
      then and_then (generate ext translatedAst) (\<lambda>printed.
             Inl (Thrown (InputError
               (''Translated message has JSX expression that isn'' @ [CHR 0x27] @
                ''t a placeholder name: '' @ printed))))
      else and_then (generate ext expr) (\<lambda>name.
        let definition = definitions_get definitions (JStr name) in
        if \<not> truthy definition
        then and_then (generate ext translatedAst) (\<lambda>printed.
               Inl (Thrown (InputError
                 (''Translated message has a JSX expression whose name doesn'' @ [CHR 0x27] @
                  ''t exist in the original: '' @ printed))))
        else set_m translatedAst ''expression'' definition))"

function reconstitute' :: "externals \<Rightarrow> jsval \<Rightarrow> (jsval \<times> jsval) list \<Rightarrow> exn + jsval"
  and reconstituteJsxElement ::
    "externals \<Rightarrow> jsval \<Rightarrow> (jsval \<times> jsval) list \<Rightarrow> exn + jsval" where
  "reconstitute' ext translatedAst definitions =
     and_then (get_m translatedAst ''type'') (\<lambda>type.
       if type = JStr ''Identifier'' then Inr translatedAst
       else if type = JStr ''Literal'' then Inr translatedAst
       else if type = JStr ''XJSElement''
       then reconstituteJsxElement ext translatedAst definitions
       else if type = JStr ''XJSExpressionContainer''
       then reconstituteJsxExpressionContainer ext translatedAst definitions
       else if type = JStr ''XJSEmptyExpression'' then Inr translatedAst
       else Inl TypeError)"
| "reconstituteJsxElement ext translatedAst definitions =
     and_then (hasUnsafeAttributes ext translatedAst) (\<lambda>unsafe.
       if unsafe
       then and_then (generateOpening ext translatedAst) (\<lambda>opening.
              Inl (Thrown (InputError (''Translation includes unsafe attribute: '' @ opening))))
       else
     and_then (componentDesignation ext translatedAst) (\<lambda>designation.
     and_then
       (if truthy designation then
          (let originalAttributes = definitions_get definitions designation in
           if \<not> truthy originalAttributes
           then Inl (Thrown (InputError
                  (''Translation contains designation '' @ [CHR 0x27] @
                   to_string ext designation @ [CHR 0x27] @
                   '', which is not in the original.'')))
           else
             and_then
               (updateAttributes translatedAst (\<lambda>translationAttributes.
                  and_then (attributeMap originalAttributes) (\<lambda>original.
                  and_then (attributeMap translationAttributes) (\<lambda>translated.
                    Inr (attributesFromMap ext (merge ext original translated))))))
               (removeDesignation ext))
        else Inr translatedAst)
       (\<lambda>result.
     and_then (as_list (get result ''children'')) (\<lambda>children.
     and_then (mapM (\<lambda>child. reconstitute' ext child definitions) children) (\<lambda>reconstituted.
       set_m result ''children'' (JList reconstituted))))))"
  by pat_completeness auto
termination
proof (relation "measure (\<lambda>x. case x of Inl (ext, ast, d) \<Rightarrow> 2 * size ast + 1
                                          | Inr (ext, ast, d) \<Rightarrow> 2 * size ast)",
       goal_cases)
  case (3 ext translatedAst definitions unsafe designation result children child)
  have "get result ''children'' = get translatedAst ''children''"
    using 3(4)
    by (auto simp: and_then_Inr Let_def split: if_splits
             dest!: updateAttributes_children removeDesignation_children)
  with 3 show ?case by (auto dest: child_smaller)
qed auto

declare reconstitute'.simps [simp del]
declare reconstituteJsxElement.simps [simp del]

definition reconstitute :: "externals \<Rightarrow> jsval \<Rightarrow> jsval \<Rightarrow> exn + jsval" where
  "reconstitute ext translatedAst originalAst =
     and_then (namedExpressionDefinitions ext originalAst) (reconstitute' ext translatedAst)"

section \<open>Finding: every keypath of a tree\<close>

text \<open>
  \<^verbatim>\<open>allKeypathsInAst\<close>: the inner \<^verbatim>\<open>f(node, keypath)\<close> pushes the keypath of each
  child and then descends into it (\<^verbatim>\<open>child && child.forEach\<close>). The array
  \<^verbatim>\<open>keypaths\<close> the source pushes to is the list returned.
\<close>

fun f :: "jsval \<Rightarrow> keypath \<Rightarrow> keypath list"
  and f_entries :: "(string \<times> jsval) list \<Rightarrow> keypath \<Rightarrow> keypath list"
  and f_items :: "jsval list \<Rightarrow> nat \<Rightarrow> keypath \<Rightarrow> keypath list" where
  "f (JMap es) keypath = f_entries es keypath"
| "f (JList xs) keypath = f_items xs 0 keypath"
| "f Undefined keypath = []"
| "f Null keypath = []"
| "f (JBool b) keypath = []"
| "f (JNum n) keypath = []"
| "f (JStr s) keypath = []"
| "f_entries [] keypath = []"
| "f_entries (e # es) keypath =
     (let childKeypath = keypath @ [K (fst e)] in
      childKeypath #
      (if truthy (snd e) \<and> is_coll (snd e) then f (snd e) childKeypath else []) @
      f_entries es keypath)"
| "f_items [] i keypath = []"
| "f_items (child # xs) i keypath =
     (let childKeypath = keypath @ [Ix i] in
      childKeypath #
      (if truthy child \<and> is_coll child then f child childKeypath else []) @
      f_items xs (Suc i) keypath)"

definition allKeypathsInAst :: "jsval \<Rightarrow> exn + keypath list" where
  "allKeypathsInAst ast = (if is_coll ast then Inr (f ast []) else Inl TypeError)"

text \<open>
  The specification's words for the same list: a pre-order walk, each child's own
  keypath first and then the keypaths below it, the children of a map in the order
  of its fields and those of a list by ascending index.
\<close>

fun children_of :: "jsval \<Rightarrow> (key \<times> jsval) list" where
  "children_of (JMap es) = map (\<lambda>e. (K (fst e), snd e)) es"
| "children_of (JList xs) = zip (map Ix [0 ..< length xs]) xs"
| "children_of v = []"

fun preorder :: "jsval \<Rightarrow> keypath list"
  and preorder_entries :: "(string \<times> jsval) list \<Rightarrow> keypath list"
  and preorder_items :: "jsval list \<Rightarrow> nat \<Rightarrow> keypath list" where
  "preorder (JMap es) = preorder_entries es"
| "preorder (JList xs) = preorder_items xs 0"
| "preorder Undefined = []"
| "preorder Null = []"
| "preorder (JBool b) = []"
| "preorder (JNum n) = []"
| "preorder (JStr s) = []"
| "preorder_entries [] = []"
| "preorder_entries (e # es) =
     ([K (fst e)] # map ((#) (K (fst e))) (preorder (snd e))) @ preorder_entries es"
| "preorder_items [] i = []"
| "preorder_items (x # xs) i =
     ([Ix i] # map ((#) (Ix i)) (preorder x)) @ preorder_items xs (Suc i)"

text \<open>A keypath that leads to a value of the tree, and the relation "before in a list".\<close>

fun has_key :: "jsval \<Rightarrow> key \<Rightarrow> bool" where
  "has_key (JMap es) (K k) = (k \<in> fst ` set es)"
| "has_key (JList xs) (Ix i) = (i < length xs)"
| "has_key v k = False"

fun reachable :: "jsval \<Rightarrow> keypath \<Rightarrow> bool" where
  "reachable v [] = True"
| "reachable v (k # ks) = (has_key v k \<and> reachable (get_key v k) ks)"

definition before :: "'a list \<Rightarrow> 'a \<Rightarrow> 'a \<Rightarrow> bool" where
  "before xs a b = (\<exists>us vs ws. xs = us @ a # vs @ b # ws)"

section \<open>Printing and unprinting\<close>

definition generateJsxChild :: "externals \<Rightarrow> jsval \<Rightarrow> exn + jsval" where
  "generateJsxChild ext ast =
     (if isStringLiteral ast then Inr (get ast ''value'')
      else and_then (generate ext ast) (\<lambda>printed. Inr (JStr printed)))"

definition generateMessage :: "externals \<Rightarrow> jsval \<Rightarrow> exn + jsval" where
  "generateMessage ext ast =
     (if isStringMarker ast then Inr (getIn ast [K ''arguments'', Ix 0, K ''value''])
      else if isElementMarker ast then
        and_then (as_list (get ast ''children'')) (\<lambda>children.
        and_then (mapM (generateJsxChild ext) children) (\<lambda>parts.
          Inr (JStr (join ext [] parts))))
      else and_then (generate ext ast) (\<lambda>printed.
        Inl (JsError (''Internal error: message is not string literal or JSX element: '' @
                      printed))))"

text \<open>
  The specification's words for the text of one child of an element marker: a string
  literal as its raw value, any other child as the printer prints it.
\<close>

definition printed_child :: "externals \<Rightarrow> jsval \<Rightarrow> string" where
  "printed_child ext child =
     (if isStringLiteral child then (case get child ''value'' of JStr s \<Rightarrow> s | _ \<Rightarrow> [])
      else escodegen_generate ext child)"

text \<open>The last branch of the source names a variable \<^verbatim>\<open>ast\<close> that its scope does not have.\<close>

definition prepareTranslationForParsing :: "externals \<Rightarrow> jsval \<Rightarrow> jsval \<Rightarrow> exn + string" where
  "prepareTranslationForParsing ext translationString originalAst =
     (if isStringMarker originalAst then Inr (json_stringify ext translationString)
      else if isElementMarker originalAst
      then Inr (''<I18N>'' @ to_string ext translationString @ ''</I18N>'')
      else Inl ReferenceError)"

section \<open>Translating\<close>

text \<open>\<^verbatim>\<open>x.size\<close>: of a collection its size, of \<^verbatim>\<open>undefined\<close> or \<^verbatim>\<open>null\<close> a TypeError.\<close>

definition size_of :: "jsval \<Rightarrow> exn + jsval" where
  "size_of v =
     (case v of
        Undefined \<Rightarrow> Inl TypeError
      | Null \<Rightarrow> Inl TypeError
      | JList xs \<Rightarrow> Inr (JNum (int (length xs)))
      | JMap es \<Rightarrow> Inr (JNum (int (length es)))
      | _ \<Rightarrow> Inr Undefined)"

definition validateStringMarker :: "externals \<Rightarrow> jsval \<Rightarrow> keypath \<Rightarrow> exn + unit" where
  "validateStringMarker ext ast keypath =
     (let messageMarker = getIn ast keypath in
      if isStringMarker messageMarker then
        and_then (size_of (get messageMarker ''arguments'')) (\<lambda>n.
          if n \<noteq> JNum 1
          then and_then (generate ext messageMarker) (\<lambda>printed.
                 Inl (Thrown (InputError
                   (''Message marker must have exactly one argument: '' @ printed))))
          else if \<not> isStringLiteral (getIn messageMarker [K ''arguments'', Ix 0])
          then and_then (generate ext messageMarker) (\<lambda>printed.
                 Inl (Thrown (InputError
                   (''Message should be a string literal, but was instead: '' @ printed))))
          else Inr ())
      else Inr ())"

definition keypathsForMessageNodesInAst :: "externals \<Rightarrow> jsval \<Rightarrow> exn + keypath list" where
  "keypathsForMessageNodesInAst ext ast =
     and_then (allKeypathsInAst ast) (\<lambda>everyKeypath.
       let keypaths = filter (\<lambda>keypath. isMarker (getIn ast keypath)) everyKeypath in
       and_then (mapM (validateStringMarker ext ast) keypaths) (\<lambda>checked. Inr keypaths))"

text \<open>
  The \<^verbatim>\<open>catch\<close> of \<^verbatim>\<open>substitute\<close> and of \<^verbatim>\<open>extractMessages\<close>: a thrown map gets
  the fields, any other error is thrown again as it is.
\<close>

definition annotate :: "exn \<Rightarrow> (string \<times> jsval) list \<Rightarrow> exn" where
  "annotate e extra =
     (case e of
        Thrown (JMap es) \<Rightarrow> Thrown (JMap (foldl (\<lambda>m p. set_entry (fst p) (snd p) m) es extra))
      | _ \<Rightarrow> e)"

text \<open>
  The property read \<^verbatim>\<open>translations[key]\<close> of a plain object with the given entries
  of its own: the entry of that name; without one, what every object inherits from
  \<^verbatim>\<open>Object.prototype\<close> under that name, a function or object that is no value of
  a syntax tree and for which \<open>inherited\<close> stands; and \<^verbatim>\<open>undefined\<close> otherwise.
\<close>

definition property_of :: "(string \<times> jsval) list \<Rightarrow> (string \<Rightarrow> jsval) \<Rightarrow> string \<Rightarrow> jsval" where
  "property_of own inherited k =
     (case map_of own k of
        Some v \<Rightarrow> v
      | None \<Rightarrow> if k \<in> set object_prototype_names then inherited k else Undefined)"

text \<open>
  \<^verbatim>\<open>substitute(ast, keypath)\<close>. The variables \<^verbatim>\<open>message\<close> and \<^verbatim>\<open>translation\<close> the
  \<^verbatim>\<open>catch\<close> reads hold what was assigned when the error was thrown: \<^verbatim>\<open>translation\<close> is
  \<^verbatim>\<open>undefined\<close> before the table is read, then the table's value, then the string
  prepared for the parser. \<open>translations\<close> is the table as the property read
  \<^verbatim>\<open>translations[key]\<close>.
\<close>

definition substitute ::
    "externals \<Rightarrow> (string \<Rightarrow> jsval) \<Rightarrow> jsval \<Rightarrow> keypath \<Rightarrow> exn + jsval" where
  "substitute ext translations ast keypath =
     (case getIn_m ast keypath of
        Inl e \<Rightarrow> Inl (annotate e [(''messageAst'', Undefined), (''translationString'', Undefined)])
      | Inr message \<Rightarrow>
     (case and_then (sanitize ext message) (generateMessage ext) of
        Inl e \<Rightarrow> Inl (annotate e [(''messageAst'', message), (''translationString'', Undefined)])
      | Inr key \<Rightarrow>
     (let translation = translations (to_string ext key) in
      if \<not> truthy translation
      then Inl (annotate
             (Thrown (InputError (''Translation missing for:'' @ [CHR 0x0A] @ to_string ext key)))
             [(''messageAst'', message), (''translationString'', translation)])
      else
     (case prepareTranslationForParsing ext translation message of
        Inl e \<Rightarrow> Inl (annotate e [(''messageAst'', message), (''translationString'', translation)])
      | Inr prepared \<Rightarrow>
     (case and_then (parseFragment ext prepared) (\<lambda>parsed.
           and_then (validateTranslation ext parsed message) (\<lambda>validated.
           and_then (reconstitute ext validated message) (\<lambda>reconstituted.
             setIn_m ast keypath reconstituted))) of
        Inl e \<Rightarrow> Inl (annotate e [(''messageAst'', message), (''translationString'', JStr prepared)])
      | Inr ast' \<Rightarrow> Inr ast')))))"

text \<open>\<^verbatim>\<open>list.reduceRight(g, initial)\<close>: from the last element to the first.\<close>

fun reduceRight :: "('b \<Rightarrow> 'a \<Rightarrow> exn + 'b) \<Rightarrow> 'a list \<Rightarrow> 'b \<Rightarrow> exn + 'b" where
  "reduceRight g [] acc = Inr acc"
| "reduceRight g (x # xs) acc = and_then (reduceRight g xs acc) (\<lambda>acc'. g acc' x)"

text \<open>
  The same keypaths taken one after another, each step working on the document
  the step before it returned. It is what \<^verbatim>\<open>reduceRight\<close> does on the reversed
  list, and serves to state in which order the driver visits the messages.
\<close>

fun in_order :: "('b \<Rightarrow> 'a \<Rightarrow> exn + 'b) \<Rightarrow> 'a list \<Rightarrow> 'b \<Rightarrow> exn + 'b" where
  "in_order g [] acc = Inr acc"
| "in_order g (x # xs) acc = and_then (g acc x) (in_order g xs)"

definition translateMessagesInAst ::
    "externals \<Rightarrow> (string \<Rightarrow> jsval) \<Rightarrow> jsval \<Rightarrow> exn + jsval" where
  "translateMessagesInAst ext translations ast =
     and_then (keypathsForMessageNodesInAst ext ast) (\<lambda>keypaths.
       reduceRight (substitute ext translations) keypaths ast)"

section \<open>Exports\<close>

definition extractMessages :: "externals \<Rightarrow> string \<Rightarrow> exn + jsval list" where
  "extractMessages ext src =
     and_then (parse ext src) (\<lambda>ast.
     and_then (keypathsForMessageNodesInAst ext ast) (\<lambda>keypaths.
       mapM (\<lambda>message.
               case and_then (validateMessage ext message) (\<lambda>validated.
                    and_then (sanitize ext validated) (generateMessage ext)) of
                 Inl e \<Rightarrow> Inl (annotate e [(''messageAst'', message)])
               | Inr printed \<Rightarrow> Inr printed)
            (map (getIn ast) keypaths)))"

definition translateMessages ::
    "externals \<Rightarrow> string \<Rightarrow> (string \<Rightarrow> jsval) \<Rightarrow> exn + string" where
  "translateMessages ext src translations =
     and_then (parse ext src) (\<lambda>ast.
     and_then (translateMessagesInAst ext translations ast) (generate ext))"

text \<open>\<^verbatim>\<open>e.get(k)\<close> and \<^verbatim>\<open>e.stack\<close> of a thrown value; a thrown map has no \<^verbatim>\<open>stack\<close>.\<close>

definition exn_get :: "exn \<Rightarrow> string \<Rightarrow> jsval" where
  "exn_get e k = (case e of Thrown v \<Rightarrow> get v k | _ \<Rightarrow> Undefined)"

definition exn_stack :: "externals \<Rightarrow> exn \<Rightarrow> jsval" where
  "exn_stack ext e = (case e of Thrown v \<Rightarrow> Undefined | _ \<Rightarrow> JStr (error_stack ext e))"

definition errorMessageForError :: "externals \<Rightarrow> exn \<Rightarrow> exn + jsval" where
  "errorMessageForError ext e =
     (if isInputError e \<and> truthy (exn_get e ''messageAst'') \<and>
         truthy (exn_get e ''translationString'') then
        (let ast = exn_get e ''messageAst'' in
         and_then (getIn_m ast [K ''loc'', K ''start'', K ''line'']) (\<lambda>line.
         and_then (generate ext ast) (\<lambda>printed.
           Inr (JStr
             ([CHR 0x0A] @ ''On line '' @ to_string ext line @
              '', when processing the message... '' @ [CHR 0x0A, CHR 0x0A] @
              printed @ [CHR 0x0A, CHR 0x0A] @
              ''...and its associated translation... '' @ [CHR 0x0A, CHR 0x0A] @
              to_string ext (exn_get e ''translationString'') @ [CHR 0x0A, CHR 0x0A] @
              ''...the following error occured: '' @ [CHR 0x0A, CHR 0x0A] @
              to_string ext (exn_get e ''description'') @ [CHR 0x0A])))))
      else if isInputError e \<and> truthy (exn_get e ''messageAst'') then
        (let ast = exn_get e ''messageAst'' in
         and_then (getIn_m ast [K ''loc'', K ''start'', K ''line'']) (\<lambda>line.
         and_then (generate ext ast) (\<lambda>printed.
           Inr (JStr
             ([CHR 0x0A] @ ''On line '' @ to_string ext line @
              '', when processing the message... '' @ [CHR 0x0A, CHR 0x0A] @
              printed @ [CHR 0x0A, CHR 0x0A] @
              ''...the following error occured: '' @ [CHR 0x0A, CHR 0x0A] @
              to_string ext (exn_get e ''description'') @ [CHR 0x0A])))))
      else if isInputError e then
        Inr (JStr (to_string ext (exn_get e ''description'') @ [CHR 0x0A]))
      else Inr (exn_stack ext e))"

section \<open>Messages that need nothing put back\<close>

text \<open>
  The trees of the round trip: a literal, or an element whose attributes are all
  allowed for its component (\<^verbatim>\<open>hasUnsafeAttributes\<close> returns false), that has no
  designation (\<^verbatim>\<open>componentDesignation\<close> returns a falsy value) and whose children are
  such trees again. There is no expression container in them.
\<close>

function plain :: "externals \<Rightarrow> jsval \<Rightarrow> bool" where
  "plain ext m =
     (if get m ''type'' = JStr ''Literal'' then True
      else if get m ''type'' = JStr ''XJSElement'' then
        hasUnsafeAttributes ext m = Inr False \<and>
        (case componentDesignation ext m of Inr d \<Rightarrow> \<not> truthy d | Inl e \<Rightarrow> False) \<and>
        (case get m ''children'' of JList children \<Rightarrow> list_all (plain ext) children | _ \<Rightarrow> False)
      else False)"
  by pat_completeness auto
termination
proof (relation "measure (\<lambda>(ext, m). size m)", goal_cases)
  case (2 ext m children x)
  then have "as_list (get m ''children'') = Inr children" by (simp add: as_list_Inr)
  from child_smaller [OF this, of x] 2 show ?case by simp
qed simp

declare plain.simps [simp del]

section \<open>Collaborators for the examples\<close>

text \<open>
  The examples need a printer and a parser to run on. \<open>print_node\<close> prints the
  name nodes as escodegen does (an identifier as its name, a namespaced name as
  \<^verbatim>\<open>namespace:name\<close>, a member expression as \<^verbatim>\<open>object.property\<close>), a call without
  arguments as \<^verbatim>\<open>callee()\<close>, an expression container as \<^verbatim>\<open>{expression}\<close>, a string
  literal between single quotes, and nothing for any other node; the parser of \<open>example_externals\<close> is a finite table from source
  text to tree, and fails on any other text; \<^verbatim>\<open>JSON.stringify\<close> puts a string that
  needs no escape between double quotes.
\<close>

function print_node :: "jsval \<Rightarrow> string" where
  "print_node ast =
     (if get ast ''type'' = JStr ''Identifier'' \<or> get ast ''type'' = JStr ''XJSIdentifier''
      then (case get ast ''name'' of JStr s \<Rightarrow> s | _ \<Rightarrow> [])
      else if get ast ''type'' = JStr ''XJSNamespacedName''
      then print_node (get ast ''namespace'') @ '':'' @ print_node (get ast ''name'')
      else if get ast ''type'' = JStr ''MemberExpression'' \<or>
              get ast ''type'' = JStr ''XJSMemberExpression''
      then print_node (get ast ''object'') @ ''.'' @ print_node (get ast ''property'')
      else if get ast ''type'' = JStr ''CallExpression'' \<and> get ast ''arguments'' = JList []
      then print_node (get ast ''callee'') @ ''()''
      else if get ast ''type'' = JStr ''XJSExpressionContainer''
      then ''{'' @ print_node (get ast ''expression'') @ ''}''
      else if get ast ''type'' = JStr ''Literal''
      then (case get ast ''value'' of JStr s \<Rightarrow> [CHR 0x27] @ s @ [CHR 0x27] | _ \<Rightarrow> [])
      else [])"
  by pat_completeness auto
termination
  by (relation "measure size") (auto dest: get_JStr_coll simp: size_get)

declare print_node.simps [simp del]

text \<open>
  The hash of a string key as the library computes it (\<^verbatim>\<open>hashString\<close>: the hash of
  the Java virtual machine on 32 bits, brought into the range of small integers by
  \<^verbatim>\<open>smi\<close>), and the place of a hash in the trie, which visits its entries by the
  five-bit digits of their hashes, the lowest digits first. The examples have no
  two string keys with the same hash in one map; a key that is no string is not
  hashed there.
\<close>

definition smi :: "int \<Rightarrow> int" where
  "smi i32 =
     i32 mod 1073741824 + (i32 div 2147483648) * 1073741824 + (i32 div 2147483648) * 2147483648"

definition hashString :: "string \<Rightarrow> int" where
  "hashString s = smi (foldl (\<lambda>h c. (31 * h + of_char c) mod 4294967296) 0 s)"

definition trie_place :: "int \<Rightarrow> int" where
  "trie_place h = foldl (\<lambda>r i. 32 * r + (h div 32 ^ i) mod 32) 0 [0 ..< 7]"

definition example_hash_rank :: "jsval list \<Rightarrow> jsval \<Rightarrow> int" where
  "example_hash_rank keys k = (case k of JStr s \<Rightarrow> trie_place (hashString s) | _ \<Rightarrow> 0)"

definition example_externals :: "(string \<times> jsval) list \<Rightarrow> externals" where
  "example_externals parses =
     \<lparr>escodegen_generate = print_node, esprima_parse = map_of parses,
      json_stringify = (\<lambda>v. case v of JStr s \<Rightarrow> [CHR 0x22] @ s @ [CHR 0x22] | _ \<Rightarrow> []),
      coll_to_string = (\<lambda>v. []), error_stack = (\<lambda>e. []),
      hash_rank = example_hash_rank\<rparr>"

text \<open>
  The nodes of the examples, with the fields in the parser's order. The source
  positions (\<^verbatim>\<open>loc\<close>) are left out where an example does not depend on them.
\<close>

definition js_identifier :: "string \<Rightarrow> jsval" where
  "js_identifier n = JMap [(''type'', JStr ''Identifier''), (''name'', JStr n)]"

definition js_string :: "string \<Rightarrow> jsval" where
  "js_string v = JMap [(''type'', JStr ''Literal''), (''value'', JStr v)]"

definition jsx_identifier :: "string \<Rightarrow> jsval" where
  "jsx_identifier n = JMap [(''type'', JStr ''XJSIdentifier''), (''name'', JStr n)]"

text \<open>An identifier with its position on line 1, as the parser records it.\<close>

definition jsx_identifier_at :: "string \<Rightarrow> nat \<Rightarrow> jsval" where
  "jsx_identifier_at n column =
     JMap [(''type'', JStr ''XJSIdentifier''), (''name'', JStr n),
           (''loc'', JMap [(''start'', JMap [(''line'', JNum 1), (''column'', JNum (int column))]),
                          (''end'', JMap [(''line'', JNum 1),
                                         (''column'', JNum (int (column + length n)))])])]"

text \<open>The position of a node on line 1, from one column to another.\<close>

definition js_loc :: "nat \<Rightarrow> nat \<Rightarrow> jsval" where
  "js_loc from_column to_column =
     JMap [(''start'', JMap [(''line'', JNum 1), (''column'', JNum (int from_column))]),
           (''end'', JMap [(''line'', JNum 1), (''column'', JNum (int to_column))])]"

definition jsx_namespaced :: "string \<Rightarrow> string \<Rightarrow> jsval" where
  "jsx_namespaced ns n =
     JMap [(''type'', JStr ''XJSNamespacedName''), (''namespace'', jsx_identifier ns),
           (''name'', jsx_identifier n)]"

definition jsx_attribute :: "jsval \<Rightarrow> string \<Rightarrow> jsval" where
  "jsx_attribute name_node v =
     JMap [(''type'', JStr ''XJSAttribute''), (''name'', name_node), (''value'', js_string v)]"

definition jsx_element :: "jsval \<Rightarrow> jsval list \<Rightarrow> jsval list \<Rightarrow> jsval" where
  "jsx_element name_node attrs children =
     JMap [(''type'', JStr ''XJSElement''),
           (''openingElement'',
              JMap [(''type'', JStr ''XJSOpeningElement''), (''name'', name_node),
                    (''selfClosing'', JBool False), (''attributes'', JList attrs)]),
           (''closingElement'', JMap [(''type'', JStr ''XJSClosingElement''), (''name'', name_node)]),
           (''children'', JList children)]"

definition jsx_container :: "jsval \<Rightarrow> jsval" where
  "jsx_container expression =
     JMap [(''type'', JStr ''XJSExpressionContainer''), (''expression'', expression)]"

definition js_call :: "jsval \<Rightarrow> jsval list \<Rightarrow> jsval" where
  "js_call callee args =
     JMap [(''type'', JStr ''CallExpression''), (''callee'', callee), (''arguments'', JList args)]"

definition js_program :: "jsval list \<Rightarrow> jsval" where
  "js_program expressions =
     JMap [(''type'', JStr ''Program''),
           (''body'', JList (map (\<lambda>e. JMap [(''type'', JStr ''ExpressionStatement''),
                                              (''expression'', e)]) expressions))]"

text \<open>The equations that run the functions on the examples.\<close>

lemmas example_nodes = js_identifier_def js_string_def jsx_identifier_def jsx_namespaced_def
  jsx_attribute_def jsx_element_def jsx_container_def js_call_def js_program_def

lemmas run_simps = example_externals_def and_then_def get_m_def getIn_m_def get_def as_list_def
  generate_def generateOpening_def attributes_def componentName_def componentNameAst_def
  attributeName_def attributeValue_def attributeIsSafe_def nameAndExpressionForNamedExpression_def
  namedExpressionDefinitionsInJsxExpressionContainer_def isNamedExpression_def isIdentifier_def
  namedExpressionDefinitions'.simps namedExpressionDefinitionsInJsxElement.simps
  isSimpleMemberExpression.simps print_node.simps Let_def

lemmas element_simps = componentDesignation_def attributeWithName_def hasUnsafeAttributes_def
  allowedAttributesByComponentName_def object_prototype_names_def

lemmas sanitize_simps = sanitize.simps sanitizeJsxElement.simps sanitizeJsxExpressionContainer_def
  makeLiteralExpressionAst_def parseFragment_def parse_def set_m_def setIn_m_def
  rewriteDesignationToNamespaceSyntax_def withSafeAttributesOnly_def updateAttributes_def
  setJsxElementName_def

lemmas message_simps = generateMessage_def generateJsxChild_def isStringMarker_def
  isElementMarker_def isStringLiteral_def isString_def

section \<open>Properties of the keypath walk\<close>

lemma f_preorder:
  "f v kp = map ((@) kp) (preorder v)"
  "f_entries es kp = map ((@) kp) (preorder_entries es)"
  "f_items xs i kp = map ((@) kp) (preorder_items xs i)"
proof (induction v kp and es kp and xs i kp rule: f_f_entries_f_items.induct)
  case (9 e es keypath)
  show ?case
  proof (cases "truthy (snd e) \<and> is_coll (snd e)")
    case True
    then show ?thesis using 9 by (simp add: Let_def)
  next
    case False
    then have "preorder (snd e) = []" by (cases "snd e") auto
    with False 9 show ?thesis by (simp add: Let_def)
  qed
next
  case (11 child xs i keypath)
  show ?case
  proof (cases "truthy child \<and> is_coll child")
    case True
    then show ?thesis using 11 by (simp add: Let_def)
  next
    case False
    then have "preorder child = []" by (cases child) auto
    with False 11 show ?thesis by (simp add: Let_def)
  qed
qed simp_all

lemma preorder_nonempty:
  "[] \<notin> set (preorder v)"
  "[] \<notin> set (preorder_entries es)"
  "[] \<notin> set (preorder_items xs i)"
  by (induction v and es and xs i rule: preorder_preorder_entries_preorder_items.induct) auto

lemma preorder_entries_set:
  "distinct (map fst es) \<Longrightarrow>
   set (preorder_entries es) =
     {K k # r | k r c. map_of es k = Some c \<and> (r = [] \<or> r \<in> set (preorder c))}"
proof (induction es)
  case Nil
  then show ?case by simp
next
  case (Cons e es)
  obtain k c where e: "e = (k, c)" by (cases e)
  from Cons.prems e have nk: "k \<notin> fst ` set es" and d: "distinct (map fst es)" by auto
  have notin: "\<And>k'. map_of es k' \<noteq> None \<Longrightarrow> k' \<noteq> k"
    using nk by (metis domIff dom_map_of_conv_image_fst)
  show ?case
    apply (simp add: e Cons.IH [OF d])
    apply (rule set_eqI)
    using notin apply auto
    done
qed

lemma preorder_items_set:
  "set (preorder_items xs i) =
     {Ix j # r | j r. i \<le> j \<and> j < i + length xs \<and> (r = [] \<or> r \<in> set (preorder (xs ! (j - i))))}"
  (is "?L xs i = ?R xs i")
proof (induction xs arbitrary: i)
  case Nil
  then show ?case by simp
next
  case (Cons x xs)
  show ?case
  proof (rule set_eqI)
    fix p
    have "p \<in> ?L (x # xs) i \<longleftrightarrow>
          p = [Ix i] \<or> p \<in> (#) (Ix i) ` set (preorder x) \<or> p \<in> ?R xs (Suc i)"
      using Cons.IH [of "Suc i"] by auto
    also have "\<dots> \<longleftrightarrow> p \<in> ?R (x # xs) i"
    proof
      assume "p = [Ix i] \<or> p \<in> (#) (Ix i) ` set (preorder x) \<or> p \<in> ?R xs (Suc i)"
      then show "p \<in> ?R (x # xs) i"
      proof (elim disjE)
        assume "p \<in> ?R xs (Suc i)"
        then obtain j r where "p = Ix j # r" "Suc i \<le> j" "j < Suc i + length xs"
          "r = [] \<or> r \<in> set (preorder (xs ! (j - Suc i)))" by blast
        moreover from this have "(x # xs) ! (j - i) = xs ! (j - Suc i)"
          by (simp add: nth_Cons')
        ultimately show ?thesis by force
      qed force+
    next
      assume "p \<in> ?R (x # xs) i"
      then obtain j r where jr: "p = Ix j # r" "i \<le> j" "j < i + length (x # xs)"
          "r = [] \<or> r \<in> set (preorder ((x # xs) ! (j - i)))" by blast
      show "p = [Ix i] \<or> p \<in> (#) (Ix i) ` set (preorder x) \<or> p \<in> ?R xs (Suc i)"
      proof (cases "j = i")
        case True
        with jr show ?thesis by auto
      next
        case False
        with jr have "Suc i \<le> j" "j < Suc i + length xs"
          "(x # xs) ! (j - i) = xs ! (j - Suc i)" by (auto simp: nth_Cons')
        with jr have "p \<in> ?R xs (Suc i)" by auto
        then show ?thesis by blast
      qed
    qed
    finally show "p \<in> ?L (x # xs) i \<longleftrightarrow> p \<in> ?R (x # xs) i" .
  qed
qed


lemma wf_map_of: "wf_val (JMap es) \<Longrightarrow> map_of es k = Some c \<Longrightarrow> wf_val c"
  by (auto dest!: map_of_SomeD)

lemma set_preorder_iff:
  "wf_val v \<Longrightarrow> p \<in> set (preorder v) \<longleftrightarrow> p \<noteq> [] \<and> reachable v p"
proof (induction p arbitrary: v)
  case Nil
  then show ?case by (simp add: preorder_nonempty)
next
  case (Cons k r)
  show ?case
  proof (cases v)
    case (JMap es)
    with Cons.prems have d: "distinct (map fst es)" by simp
    show ?thesis
    proof (cases k)
      case (K s)
      show ?thesis
      proof (cases "map_of es s")
        case None
        then have "s \<notin> fst ` set es" by (simp add: map_of_eq_None_iff)
        with None show ?thesis by (simp add: JMap K preorder_entries_set [OF d])
      next
        case (Some c)
        then have "s \<in> fst ` set es" by (metis map_of_eq_None_iff option.distinct(1))
        moreover have "wf_val c" using Cons.prems Some JMap wf_map_of by blast
        ultimately show ?thesis
          using Some Cons.IH [of c] by (auto simp: JMap K preorder_entries_set [OF d])
      qed
    next
      case (Ix i)
      then show ?thesis by (auto simp: JMap preorder_entries_set [OF d])
    qed
  next
    case (JList xs)
    show ?thesis
    proof (cases k)
      case (K s)
      then show ?thesis by (auto simp: JList preorder_items_set)
    next
      case (Ix i)
      show ?thesis
      proof (cases "i < length xs")
        case True
        then have "wf_val (xs ! i)" using Cons.prems JList by simp
        then show ?thesis using True Cons.IH [of "xs ! i"]
          by (auto simp: JList Ix preorder_items_set)
      next
        case False
        then show ?thesis by (auto simp: JList Ix preorder_items_set)
      qed
    qed
  qed simp_all
qed

lemma set_preorder: "wf_val v \<Longrightarrow> set (preorder v) = {p. p \<noteq> [] \<and> reachable v p}"
  using set_preorder_iff by blast

lemma entries_heads:
  "p \<in> set (preorder_entries es) \<Longrightarrow> \<exists>k r. p = K k # r \<and> k \<in> fst ` set es"
  by (induction es) auto

lemma items_heads:
  "p \<in> set (preorder_items xs i) \<Longrightarrow> \<exists>j r. p = Ix j # r \<and> i \<le> j \<and> j < i + length xs"
  by (induction xs arbitrary: i) (auto, fastforce)

lemma distinct_preorder:
  "wf_val v \<Longrightarrow> distinct (preorder v)"
  "distinct (map fst es) \<Longrightarrow> (\<forall>e \<in> set es. wf_val (snd e)) \<Longrightarrow> distinct (preorder_entries es)"
  "(\<forall>x \<in> set xs. wf_val x) \<Longrightarrow> distinct (preorder_items xs i)"
proof (induction v and es and xs i rule: preorder_preorder_entries_preorder_items.induct)
  case (9 e es)
  have "distinct (map ((#) (K (fst e))) (preorder (snd e)))"
    using 9 by (simp add: distinct_map)
  moreover have "[K (fst e)] \<notin> set (map ((#) (K (fst e))) (preorder (snd e)))"
    using preorder_nonempty(1) by auto
  moreover have "p \<noteq> [K (fst e)] \<and> p \<notin> set (map ((#) (K (fst e))) (preorder (snd e)))"
    if "p \<in> set (preorder_entries es)" for p
  proof -
    from that obtain k r where p: "p = K k # r" and "k \<in> fst ` set es"
      using entries_heads by blast
    moreover have "fst e \<notin> fst ` set es" using 9(3) by simp
    ultimately have "k \<noteq> fst e" by blast
    then show ?thesis by (auto simp: p)
  qed
  ultimately show ?case using 9 by auto
next
  case (11 x xs i)
  have "distinct (map ((#) (Ix i)) (preorder x))"
    using 11 by (simp add: distinct_map)
  moreover have "[Ix i] \<notin> set (map ((#) (Ix i)) (preorder x))"
    using preorder_nonempty(1) by auto
  moreover have "\<And>p. p \<in> set (preorder_items xs (Suc i)) \<Longrightarrow>
      p \<noteq> [Ix i] \<and> p \<notin> set (map ((#) (Ix i)) (preorder x))"
    by (auto dest!: items_heads)
  ultimately show ?case using 11 by auto
qed simp_all

lemma before_Cons_head: "b \<in> set xs \<Longrightarrow> before (a # xs) a b"
  unfolding before_def by (metis append_Nil split_list)

lemma before_Cons: "before xs a b \<Longrightarrow> before (x # xs) a b"
  unfolding before_def by (metis append_Cons)

lemma before_append1: "before xs a b \<Longrightarrow> before (xs @ ys) a b"
  unfolding before_def by (metis append.assoc append_Cons)

lemma before_append2: "before ys a b \<Longrightarrow> before (xs @ ys) a b"
  unfolding before_def by (metis append.assoc)

lemma before_map: "before xs a b \<Longrightarrow> before (map g xs) (g a) (g b)"
proof -
  assume "before xs a b"
  then obtain us vs ws where "xs = us @ a # vs @ b # ws" unfolding before_def by blast
  then have "map g xs = map g us @ g a # map g vs @ g b # map g ws" by simp
  then show ?thesis unfolding before_def by blast
qed

lemma parent_before:
  "wf_val v \<Longrightarrow> p \<in> set (preorder v) \<Longrightarrow> q \<in> set (preorder v) \<Longrightarrow>
     strict_prefix p q \<Longrightarrow> before (preorder v) p q"
  "distinct (map fst es) \<Longrightarrow> (\<forall>e \<in> set es. wf_val (snd e)) \<Longrightarrow>
     p \<in> set (preorder_entries es) \<Longrightarrow> q \<in> set (preorder_entries es) \<Longrightarrow>
     strict_prefix p q \<Longrightarrow> before (preorder_entries es) p q"
  "(\<forall>x \<in> set xs. wf_val x) \<Longrightarrow>
     p \<in> set (preorder_items xs i) \<Longrightarrow> q \<in> set (preorder_items xs i) \<Longrightarrow>
     strict_prefix p q \<Longrightarrow> before (preorder_items xs i) p q"
proof (induction v and es and xs i arbitrary: p q and p q and p q
    rule: preorder_preorder_entries_preorder_items.induct)
  case (9 e es)
  let ?k = "K (fst e)"
  let ?sub = "map ((#) ?k) (preorder (snd e))"
  have rest: "hd r \<noteq> ?k" if "r \<in> set (preorder_entries es)" for r
  proof -
    from that obtain k r' where r: "r = K k # r'" and "k \<in> fst ` set es"
      using entries_heads by blast
    moreover have "fst e \<notin> fst ` set es" using 9(3) by simp
    ultimately have "k \<noteq> fst e" by blast
    then show ?thesis by (simp add: r)
  qed
  have pne: "p \<noteq> []" using 9(5) preorder_nonempty(2) by metis
  have hd_eq: "hd p = hd q" using 9(7) pne by (auto simp: strict_prefix_def prefix_def)
  show ?case
  proof (cases "p \<in> set (preorder_entries es)")
    case True
    then have "hd q \<noteq> ?k" using rest hd_eq by metis
    then have "q \<in> set (preorder_entries es)" using 9(6) by auto
    then have "before (preorder_entries es) p q" using 9 True by auto
    then show ?thesis using before_append2 [of "preorder_entries es" p q "[?k] # ?sub"] by simp
  next
    case False
    then have pin: "p = [?k] \<or> p \<in> set ?sub" using 9(5) by auto
    then have "hd q = ?k" using hd_eq by auto
    then have "q \<notin> set (preorder_entries es)" using rest by blast
    then have qin: "q = [?k] \<or> q \<in> set ?sub" using 9(6) by auto
    show ?thesis
    proof (cases "p = [?k]")
      case True
      then have "q \<in> set ?sub" using qin 9(7) by auto
      then have "before ([?k] # ?sub) p q" using True before_Cons_head by metis
      then show ?thesis using before_append1 by fastforce
    next
      case False
      then obtain p' where p': "p = ?k # p'" "p' \<in> set (preorder (snd e))" using pin by auto
      then have "q \<noteq> [?k]" using 9(7) by (auto simp: strict_prefix_def prefix_def)
      then obtain q' where q': "q = ?k # q'" "q' \<in> set (preorder (snd e))" using qin by auto
      have "strict_prefix p' q'" using 9(7) p' q' by (auto simp: strict_prefix_def)
      then have "before (preorder (snd e)) p' q'" using 9(1) [of p' q'] 9(4) p' q' by auto
      then have "before ?sub p q" using before_map [of _ p' q' "(#) ?k"] p' q' by simp
      then show ?thesis using before_append1 before_Cons by fastforce
    qed
  qed
next
  case (11 x xs i)
  let ?k = "Ix i"
  let ?sub = "map ((#) ?k) (preorder x)"
  have rest: "\<And>r. r \<in> set (preorder_items xs (Suc i)) \<Longrightarrow> hd r \<noteq> ?k"
    by (auto dest!: items_heads)
  have pne: "p \<noteq> []" using 11(4) preorder_nonempty(3) by metis
  have hd_eq: "hd p = hd q" using 11(6) pne by (auto simp: strict_prefix_def prefix_def)
  show ?case
  proof (cases "p \<in> set (preorder_items xs (Suc i))")
    case True
    then have "hd q \<noteq> ?k" using rest hd_eq by metis
    then have "q \<in> set (preorder_items xs (Suc i))" using 11(5) by auto
    then have "before (preorder_items xs (Suc i)) p q" using 11 True by auto
    then show ?thesis
      using before_append2 [of "preorder_items xs (Suc i)" p q "[?k] # ?sub"] by simp
  next
    case False
    then have pin: "p = [?k] \<or> p \<in> set ?sub" using 11(4) by auto
    then have "hd q = ?k" using hd_eq by auto
    then have "q \<notin> set (preorder_items xs (Suc i))" using rest by blast
    then have qin: "q = [?k] \<or> q \<in> set ?sub" using 11(5) by auto
    show ?thesis
    proof (cases "p = [?k]")
      case True
      then have "q \<in> set ?sub" using qin 11(6) by auto
      then have "before ([?k] # ?sub) p q" using True before_Cons_head by metis
      then show ?thesis using before_append1 by fastforce
    next
      case False
      then obtain p' where p': "p = ?k # p'" "p' \<in> set (preorder x)" using pin by auto
      then have "q \<noteq> [?k]" using 11(6) by (auto simp: strict_prefix_def prefix_def)
      then obtain q' where q': "q = ?k # q'" "q' \<in> set (preorder x)" using qin by auto
      have "strict_prefix p' q'" using 11(6) p' q' by (auto simp: strict_prefix_def)
      then have "before (preorder x) p' q'" using 11(1) [of p' q'] 11(3) p' q' by auto
      then have "before ?sub p q" using before_map [of _ p' q' "(#) ?k"] p' q' by simp
      then show ?thesis using before_append1 before_Cons by fastforce
    qed
  qed
qed simp_all

lemma f_root: "f t [] = preorder t"
proof -
  have "(@) ([]::keypath) = (\<lambda>x. x)" by (rule ext) simp
  then show ?thesis by (simp add: f_preorder)
qed

lemma fromJS_small: "small_maps js \<Longrightarrow> fromJS ext js = js"
proof (induction js)
  case (JMap es)
  have "map (\<lambda>(k, v). (k, fromJS ext v)) es = es"
  proof (rule map_idI)
    fix e assume e: "e \<in> set es"
    obtain k v where kv: "e = (k, v)" by (cases e)
    with e JMap.prems have "small_maps v" by auto
    moreover from e kv have "v \<in> Basic_BNFs.snds e" "e \<in> set es" by auto
    ultimately have "fromJS ext v = v" using JMap.IH by blast
    then show "(case e of (k, v) \<Rightarrow> (k, fromJS ext v)) = e" by (simp add: kv)
  qed
  with JMap.prems show ?case by (simp add: entries_in_order_def)
next
  case (JList xs)
  then have "map (fromJS ext) xs = xs" by (intro map_idI) auto
  then show ?case by simp
qed simp_all

lemma before_Cons_cases: "before (x # xs) a b \<Longrightarrow> (a = x \<and> b \<in> set xs) \<or> before xs a b"
proof -
  assume "before (x # xs) a b"
  then obtain us vs ws where d: "x # xs = us @ a # vs @ b # ws" unfolding before_def by blast
  show ?thesis
  proof (cases us)
    case Nil
    with d show ?thesis by auto
  next
    case (Cons u us')
    with d have "xs = us' @ a # vs @ b # ws" by simp
    then show ?thesis unfolding before_def by blast
  qed
qed

lemma before_in_set: "before xs a b \<Longrightarrow> a \<in> set xs \<and> b \<in> set xs"
  unfolding before_def by auto

lemma before_append_both: "x \<in> set xs \<Longrightarrow> y \<in> set ys \<Longrightarrow> before (xs @ ys) x y"
proof -
  assume "x \<in> set xs" "y \<in> set ys"
  then obtain u1 u2 v1 v2 where "xs = u1 @ x # u2" "ys = v1 @ y # v2"
    by (meson split_list)
  then have "xs @ ys = u1 @ x # (u2 @ v1) @ y # v2" by simp
  then show ?thesis unfolding before_def by blast
qed

lemma siblings_entries:
  "distinct (map fst es) \<Longrightarrow> a # r \<in> set (preorder_entries es) \<Longrightarrow>
     b # s \<in> set (preorder_entries es) \<Longrightarrow> before (map (\<lambda>e. K (fst e)) es) a b \<Longrightarrow>
     before (preorder_entries es) (a # r) (b # s)"
proof (induction es)
  case Nil
  then show ?case by simp
next
  case (Cons e es)
  let ?k = "K (fst e)"
  let ?block = "[?k] # map ((#) ?k) (preorder (snd e))"
  have rest: "hd q \<noteq> ?k" if "q \<in> set (preorder_entries es)" for q
  proof -
    from that obtain k q' where "q = K k # q'" "k \<in> fst ` set es"
      using entries_heads by blast
    moreover have "fst e \<notin> fst ` set es" using Cons.prems(1) by simp
    ultimately have "k \<noteq> fst e" by blast
    then show ?thesis using \<open>q = K k # q'\<close> by simp
  qed
  have block: "hd q = ?k" if "q \<in> set ?block" for q using that by auto
  have keys: "?k \<notin> set (map (\<lambda>e. K (fst e)) es)" using Cons.prems(1) by auto
  from Cons.prems(4) have "before (?k # map (\<lambda>e. K (fst e)) es) a b" by simp
  then have "(a = ?k \<and> b \<in> set (map (\<lambda>e. K (fst e)) es)) \<or>
      before (map (\<lambda>e. K (fst e)) es) a b"
    by (rule before_Cons_cases)
  then consider "a = ?k" "b \<in> set (map (\<lambda>e. K (fst e)) es)"
    | "before (map (\<lambda>e. K (fst e)) es) a b"
    by blast
  then show ?case
  proof cases
    case 1
    then have "b \<noteq> ?k" using keys by blast
    then have "b # s \<notin> set ?block" using block [of "b # s"] by auto
    then have bs: "b # s \<in> set (preorder_entries es)" using Cons.prems(3) by auto
    have "a # r \<notin> set (preorder_entries es)" using rest [of "a # r"] 1(1) by auto
    then have "a # r \<in> set ?block" using Cons.prems(2) by auto
    from before_append_both [OF this bs] show ?thesis by simp
  next
    case 2
    from before_in_set [OF 2]
    have "a \<in> set (map (\<lambda>e. K (fst e)) es)" "b \<in> set (map (\<lambda>e. K (fst e)) es)" by blast+
    with keys have "a \<noteq> ?k" "b \<noteq> ?k" by blast+
    then have "a # r \<notin> set ?block" "b # s \<notin> set ?block"
      using block [of "a # r"] block [of "b # s"] by auto
    then have "a # r \<in> set (preorder_entries es)" "b # s \<in> set (preorder_entries es)"
      using Cons.prems(2,3) by auto
    with Cons.IH 2 Cons.prems(1) have "before (preorder_entries es) (a # r) (b # s)" by simp
    from before_append2 [OF this, of ?block] show ?thesis by simp
  qed
qed

lemma siblings_items:
  "a # r \<in> set (preorder_items xs i) \<Longrightarrow> b # s \<in> set (preorder_items xs i) \<Longrightarrow>
     before (map Ix [i ..< i + length xs]) a b \<Longrightarrow>
     before (preorder_items xs i) (a # r) (b # s)"
proof (induction xs arbitrary: i)
  case Nil
  then show ?case by simp
next
  case (Cons x xs)
  let ?k = "Ix i"
  let ?block = "[?k] # map ((#) ?k) (preorder x)"
  let ?keys = "map Ix [Suc i ..< Suc i + length xs]"
  have rest: "hd q \<noteq> ?k" if "q \<in> set (preorder_items xs (Suc i))" for q
    using that by (auto dest!: items_heads)
  have block: "hd q = ?k" if "q \<in> set ?block" for q using that by auto
  have keys: "?k \<notin> set ?keys" by auto
  have u: "[i ..< i + length (x # xs)] = i # [Suc i ..< Suc i + length xs]"
  proof -
    have "i < i + length (x # xs)" by simp
    from upt_conv_Cons [OF this] show ?thesis
      by (simp only: length_Cons add_Suc_right add_Suc)
  qed
  have "before (?k # ?keys) a b" using Cons.prems(3) unfolding u by (simp only: list.map)
  then have "(a = ?k \<and> b \<in> set ?keys) \<or> before ?keys a b"
    by (rule before_Cons_cases)
  then consider "a = ?k" "b \<in> set ?keys" | "before ?keys a b"
    by blast
  then show ?case
  proof cases
    case 1
    then have "b \<noteq> ?k" using keys by blast
    then have "b # s \<notin> set ?block" using block [of "b # s"] by auto
    then have bs: "b # s \<in> set (preorder_items xs (Suc i))" using Cons.prems(2) by auto
    have "a # r \<notin> set (preorder_items xs (Suc i))" using rest [of "a # r"] 1(1) by auto
    then have "a # r \<in> set ?block" using Cons.prems(1) by auto
    from before_append_both [OF this bs] show ?thesis by simp
  next
    case 2
    from before_in_set [OF 2] have "a \<in> set ?keys" "b \<in> set ?keys" by blast+
    with keys have "a \<noteq> ?k" "b \<noteq> ?k" by blast+
    then have "a # r \<notin> set ?block" "b # s \<notin> set ?block"
      using block [of "a # r"] block [of "b # s"] by auto
    then have "a # r \<in> set (preorder_items xs (Suc i))" "b # s \<in> set (preorder_items xs (Suc i))"
      using Cons.prems(1,2) by auto
    with Cons.IH [of "Suc i"] 2 have "before (preorder_items xs (Suc i)) (a # r) (b # s)" by simp
    from before_append2 [OF this, of ?block] show ?thesis by simp
  qed
qed

lemma block_entries:
  "distinct (map fst es) \<Longrightarrow> map_of es k = Some c \<Longrightarrow>
     \<exists>us ws. preorder_entries es = us @ map ((#) (K k)) (preorder c) @ ws"
proof (induction es)
  case Nil
  then show ?case by simp
next
  case (Cons e es)
  show ?case
  proof (cases "fst e = k")
    case True
    with Cons.prems have "snd e = c" by (cases e) auto
    with True have "preorder_entries (e # es) =
        [[K k]] @ map ((#) (K k)) (preorder c) @ preorder_entries es" by simp
    then show ?thesis by blast
  next
    case False
    with Cons.prems have "map_of es k = Some c" by (cases e) auto
    with Cons.IH Cons.prems(1) obtain us ws where
      "preorder_entries es = us @ map ((#) (K k)) (preorder c) @ ws" by auto
    then have "preorder_entries (e # es) =
        (([K (fst e)] # map ((#) (K (fst e))) (preorder (snd e))) @ us) @
        map ((#) (K k)) (preorder c) @ ws" by simp
    then show ?thesis by blast
  qed
qed

lemma block_items:
  "j < length xs \<Longrightarrow>
     \<exists>us ws. preorder_items xs i = us @ map ((#) (Ix (i + j))) (preorder (xs ! j)) @ ws"
proof (induction xs arbitrary: i j)
  case Nil
  then show ?case by simp
next
  case (Cons x xs)
  show ?case
  proof (cases j)
    case 0
    then have "preorder_items (x # xs) i =
        [[Ix i]] @ map ((#) (Ix (i + j))) (preorder ((x # xs) ! j)) @ preorder_items xs (Suc i)"
      by simp
    then show ?thesis by blast
  next
    case (Suc j')
    with Cons.prems have "j' < length xs" by simp
    from Cons.IH [OF this, of "Suc i"] obtain us ws where
      "preorder_items xs (Suc i) = us @ map ((#) (Ix (Suc i + j'))) (preorder (xs ! j')) @ ws"
      by blast
    then have "preorder_items (x # xs) i =
        (([Ix i] # map ((#) (Ix i)) (preorder x)) @ us) @
        map ((#) (Ix (i + j))) (preorder ((x # xs) ! j)) @ ws"
      using Suc by simp
    then show ?thesis by blast
  qed
qed

lemma block_child:
  assumes "wf_val v" and "has_key v k"
  shows "\<exists>us ws. preorder v = us @ map ((#) k) (preorder (get_key v k)) @ ws"
proof (cases v)
  case (JMap es)
  with assms obtain n where n: "k = K n" "n \<in> fst ` set es" by (cases k) auto
  then obtain c where c: "map_of es n = Some c"
    by (metis domD dom_map_of_conv_image_fst)
  from JMap assms(1) have "distinct (map fst es)" by simp
  from block_entries [OF this c] show ?thesis by (simp add: JMap n c)
next
  case (JList xs)
  with assms obtain j where j: "k = Ix j" "j < length xs" by (cases k) auto
  from block_items [OF j(2), of 0] show ?thesis by (simp add: JList j)
qed (use assms in simp_all)

lemma wf_get_key: "wf_val v \<Longrightarrow> wf_val (get_key v k)"
proof (cases v)
  case (JMap es)
  assume "wf_val v"
  with JMap show ?thesis
    by (cases k) (auto split: option.splits dest: map_of_SomeD)
next
  case (JList xs)
  assume "wf_val v"
  with JList show ?thesis by (cases k) auto
qed simp_all

lemma siblings_in_order:
  "wf_val v \<Longrightarrow> p @ a # r \<in> set (preorder v) \<Longrightarrow> p @ b # s \<in> set (preorder v) \<Longrightarrow>
     before (map fst (children_of (getIn v p))) a b \<Longrightarrow>
     before (preorder v) (p @ a # r) (p @ b # s)"
proof (induction p arbitrary: v)
  case Nil
  show ?case
  proof (cases v)
    case (JMap es)
    with Nil.prems have "distinct (map fst es)" by simp
    from siblings_entries [OF this, of a r b s] Nil.prems JMap show ?thesis
      by (simp add: comp_def)
  next
    case (JList xs)
    have "map fst (zip (map Ix [0 ..< length xs]) xs) = map Ix [0 ..< length xs]" by simp
    with siblings_items [of a r xs 0 b s] Nil.prems JList show ?thesis by simp
  qed (use Nil.prems in simp_all)
next
  case (Cons k p)
  let ?c = "get_key v k"
  from Cons.prems(1,2) have ra: "reachable v (k # p @ a # r)"
    by (simp add: set_preorder_iff)
  from Cons.prems(1,3) have rb: "reachable v (k # p @ b # s)"
    by (simp add: set_preorder_iff)
  from ra have hk: "has_key v k" by simp
  have wc: "wf_val ?c" using Cons.prems(1) by (rule wf_get_key)
  from ra rb wc have "p @ a # r \<in> set (preorder ?c)" "p @ b # s \<in> set (preorder ?c)"
    by (simp_all add: set_preorder_iff)
  with Cons.IH [OF wc] Cons.prems(4) have "before (preorder ?c) (p @ a # r) (p @ b # s)"
    by simp
  then have m: "before (map ((#) k) (preorder ?c)) (k # p @ a # r) (k # p @ b # s)"
    by (rule before_map)
  from block_child [OF Cons.prems(1) hk] obtain us ws where
    "preorder v = us @ map ((#) k) (preorder ?c) @ ws" by blast
  with before_append2 [OF before_append1 [OF m, of ws], of us] show ?case by simp
qed




section \<open>Rendering an error\<close>

text \<open>
  C10. \<^verbatim>\<open>errorMessageForError\<close> on the shapes of an error. An input error that
  carries a message subtree (a node) and a translation string (a truthy
  \<^verbatim>\<open>translationString\<close>, the test of the source) renders with the line number, the
  printed message, the translation and the description; one that carries a message
  subtree and no translation string renders with the line number, the printed message
  and the description; one without a message subtree renders as its description and a
  newline; any other error renders as its \<^verbatim>\<open>stack\<close>.
\<close>

theorem errorMessageForError_shapes:
  "(isInputError e \<and> is_coll (exn_get e ''messageAst'') \<and>
      truthy (exn_get e ''translationString'') \<longrightarrow>
      errorMessageForError ext e = Inr (JStr
        ([CHR 0x0A] @ ''On line '' @
         to_string ext (getIn (exn_get e ''messageAst'') [K ''loc'', K ''start'', K ''line'']) @
         '', when processing the message... '' @ [CHR 0x0A, CHR 0x0A] @
         escodegen_generate ext (exn_get e ''messageAst'') @ [CHR 0x0A, CHR 0x0A] @
         ''...and its associated translation... '' @ [CHR 0x0A, CHR 0x0A] @
         to_string ext (exn_get e ''translationString'') @ [CHR 0x0A, CHR 0x0A] @
         ''...the following error occured: '' @ [CHR 0x0A, CHR 0x0A] @
         to_string ext (exn_get e ''description'') @ [CHR 0x0A]))) \<and>
   (isInputError e \<and> is_coll (exn_get e ''messageAst'') \<and>
      \<not> truthy (exn_get e ''translationString'') \<longrightarrow>
      errorMessageForError ext e = Inr (JStr
        ([CHR 0x0A] @ ''On line '' @
         to_string ext (getIn (exn_get e ''messageAst'') [K ''loc'', K ''start'', K ''line'']) @
         '', when processing the message... '' @ [CHR 0x0A, CHR 0x0A] @
         escodegen_generate ext (exn_get e ''messageAst'') @ [CHR 0x0A, CHR 0x0A] @
         ''...the following error occured: '' @ [CHR 0x0A, CHR 0x0A] @
         to_string ext (exn_get e ''description'') @ [CHR 0x0A]))) \<and>
   (isInputError e \<and> \<not> truthy (exn_get e ''messageAst'') \<longrightarrow>
      errorMessageForError ext e =
        Inr (JStr (to_string ext (exn_get e ''description'') @ [CHR 0x0A]))) \<and>
   (\<not> isInputError e \<longrightarrow> errorMessageForError ext e = Inr (exn_stack ext e)) \<and>
   ((\<forall>v. e \<noteq> Thrown v) \<longrightarrow> errorMessageForError ext e = Inr (JStr (error_stack ext e)))"
proof -
  have coll_truthy: "\<And>v. is_coll v \<Longrightarrow> truthy v" by (case_tac v) simp_all
  have not_thrown: "\<forall>v. e \<noteq> Thrown v \<Longrightarrow> \<not> isInputError e"
    by (cases e) (simp_all add: isInputError_def)
  have stack: "\<forall>v. e \<noteq> Thrown v \<Longrightarrow> exn_stack ext e = JStr (error_stack ext e)"
    by (cases e) (simp_all add: exn_stack_def)
  show ?thesis
  proof (intro conjI impI)
    assume "\<forall>v. e \<noteq> Thrown v"
    then show "errorMessageForError ext e = Inr (JStr (error_stack ext e))"
      using not_thrown stack by (simp add: errorMessageForError_def)
  qed (auto simp: errorMessageForError_def Let_def getIn_m_def generate_def and_then_def
        dest: coll_truthy)
qed

theorem errorMessageForError_shapes_witness:
  "isInputError (Thrown (JMap [(''isInputError'', JBool True), (''description'', JStr ''boom''),
       (''messageAst'', JMap [(''type'', JStr ''CallExpression''),
          (''loc'', JMap [(''start'', JMap [(''line'', JNum 3)])])]),
       (''translationString'', JStr ''Bonjour'')])) \<and>
   errorMessageForError
     \<lparr>escodegen_generate = (\<lambda>ast. ''i18n(x)''), esprima_parse = (\<lambda>src. None),
      json_stringify = (\<lambda>v. []), coll_to_string = (\<lambda>v. []), error_stack = (\<lambda>e. []),
      hash_rank = (\<lambda>keys k. 0)\<rparr>
     (Thrown (JMap [(''isInputError'', JBool True), (''description'', JStr ''boom''),
       (''messageAst'', JMap [(''type'', JStr ''CallExpression''),
          (''loc'', JMap [(''start'', JMap [(''line'', JNum 3)])])]),
       (''translationString'', JStr ''Bonjour'')]))
   = Inr (JStr ([CHR 0x0A] @ ''On line 3, when processing the message... '' @ [CHR 0x0A, CHR 0x0A] @
         ''i18n(x)'' @ [CHR 0x0A, CHR 0x0A] @
         ''...and its associated translation... '' @ [CHR 0x0A, CHR 0x0A] @
         ''Bonjour'' @ [CHR 0x0A, CHR 0x0A] @
         ''...the following error occured: '' @ [CHR 0x0A, CHR 0x0A] @
         ''boom'' @ [CHR 0x0A]))"
  using errorMessageForError_shapes [of
     "Thrown (JMap [(''isInputError'', JBool True), (''description'', JStr ''boom''),
       (''messageAst'', JMap [(''type'', JStr ''CallExpression''),
          (''loc'', JMap [(''start'', JMap [(''line'', JNum 3)])])]),
       (''translationString'', JStr ''Bonjour'')])"
     "\<lparr>escodegen_generate = (\<lambda>ast. ''i18n(x)''), esprima_parse = (\<lambda>src. None),
      json_stringify = (\<lambda>v. []), coll_to_string = (\<lambda>v. []), error_stack = (\<lambda>e. []),
      hash_rank = (\<lambda>keys k. 0)\<rparr>"]
  by (simp add: isInputError_def exn_get_def get_def show_int_def)

section \<open>Duplicated names\<close>

lemma count_list_pos: "x \<in> set xs \<Longrightarrow> 0 < count_list xs x"
  by (induction xs) auto

lemma count_snoc: "count_list (xs @ [x]) y = count_list xs y + (if x = y then 1 else 0)"
  by simp

lemma dupes_push:
  assumes "set dupes = {y. 2 \<le> count_list xs y}" and "x \<in> set xs"
  shows "set (dupes @ [x]) = {y. 2 \<le> count_list (xs @ [x]) y}"
proof -
  have "1 \<le> count_list xs x" using count_list_pos [OF assms(2)] by simp
  then have x: "2 \<le> count_list (xs @ [x]) x" by simp
  have other: "\<And>y. y \<noteq> x \<Longrightarrow> count_list (xs @ [x]) y = count_list xs y" by simp
  have le: "\<And>y. count_list xs y \<le> count_list (xs @ [x]) y" by simp
  show ?thesis
  proof (rule set_eqI)
    fix y
    show "y \<in> set (dupes @ [x]) \<longleftrightarrow> y \<in> {y. 2 \<le> count_list (xs @ [x]) y}"
    proof (cases "y = x")
      case True
      then show ?thesis using x by simp
    next
      case False
      then show ?thesis using assms(1) other [OF False] by auto
    qed
  qed
qed

lemma dupes_keep:
  assumes "set dupes = {y. 2 \<le> count_list xs y}" and "x \<notin> set xs \<or> x \<in> set dupes"
  shows "set dupes = {y. 2 \<le> count_list (xs @ [x]) y}"
proof (rule set_eqI)
  fix y
  show "y \<in> set dupes \<longleftrightarrow> y \<in> {y. 2 \<le> count_list (xs @ [x]) y}"
  proof (cases "y = x")
    case True
    show ?thesis
    proof (cases "x \<in> set xs")
      case True
      then have "x \<in> set dupes" using assms(2) by simp
      then have "2 \<le> count_list xs x" using assms(1) by simp
      then show ?thesis using \<open>y = x\<close> \<open>x \<in> set dupes\<close> by simp
    next
      case False
      then have "count_list xs x = 0" by simp
      then have "x \<notin> set dupes" using assms(1) by simp
      then show ?thesis using \<open>y = x\<close> \<open>count_list xs x = 0\<close> by simp
    qed
  next
    case False
    then have "count_list (xs @ [x]) y = count_list xs y" by simp
    then show ?thesis using assms(1) by simp
  qed
qed

lemma duplicatedValues_state:
  "case foldl duplicatedValues_step ([], []) xs of (dupes, seen) \<Rightarrow>
     set seen = set xs \<and> set dupes = {x. 2 \<le> count_list xs x} \<and> distinct dupes"
proof (induction xs rule: rev_induct)
  case Nil
  then show ?case by simp
next
  case (snoc x xs)
  obtain dupes seen where st: "foldl duplicatedValues_step ([], []) xs = (dupes, seen)"
    by (cases "foldl duplicatedValues_step ([], []) xs")
  with snoc have inv: "set seen = set xs" "set dupes = {y. 2 \<le> count_list xs y}"
    "distinct dupes" by simp_all
  show ?case
  proof (cases "x \<in> set seen \<and> x \<notin> set dupes")
    case True
    then have xin: "x \<in> set xs" using inv by simp
    have "foldl duplicatedValues_step ([], []) (xs @ [x]) = (dupes @ [x], seen)"
      using True by (simp add: st duplicatedValues_step_def)
    moreover have "set seen = set (xs @ [x])" using inv(1) xin by auto
    moreover have "distinct (dupes @ [x])" using True inv(3) by simp
    ultimately show ?thesis using dupes_push [OF inv(2) xin] by (simp only: prod.case) 
  next
    case False
    then have c: "x \<notin> set xs \<or> x \<in> set dupes" using inv(1) by simp
    have "foldl duplicatedValues_step ([], []) (xs @ [x]) = (dupes, seen @ [x])"
      using False by (simp add: st duplicatedValues_step_def)
    moreover have "set (seen @ [x]) = set (xs @ [x])" using inv(1) by simp
    ultimately show ?thesis using dupes_keep [OF inv(2) c] inv(3) by (simp only: prod.case)
  qed
qed

lemma duplicatedValues_set:
  "set (duplicatedValues xs) = {x. 2 \<le> count_list xs x}" "distinct (duplicatedValues xs)"
  using duplicatedValues_state [of xs]
  by (auto simp: duplicatedValues_def split: prod.splits)

lemma not_distinct_count: "\<not> distinct xs \<Longrightarrow> \<exists>x. 2 \<le> count_list xs x"
proof (induction xs)
  case Nil
  then show ?case by simp
next
  case (Cons a xs)
  show ?case
  proof (cases "a \<in> set xs")
    case True
    then have "0 < count_list xs a" by (rule count_list_pos)
    then have "2 \<le> count_list (a # xs) a" by simp
    then show ?thesis by blast
  next
    case False
    with Cons obtain x where "2 \<le> count_list xs x" by auto
    then have "2 \<le> count_list (a # xs) x" by simp
    then show ?thesis by blast
  qed
qed

lemma duplicatedValues_nonempty: "\<not> distinct xs \<Longrightarrow> duplicatedValues xs \<noteq> []"
  using not_distinct_count [of xs] duplicatedValues_set(1) [of xs] by auto

lemma singleton_list: "distinct xs \<Longrightarrow> set xs = {a} \<Longrightarrow> xs = [a]"
proof (cases xs)
  case Nil
  assume "set xs = {a}"
  with Nil show ?thesis by simp
next
  case (Cons x ys)
  assume d: "distinct xs" and s: "set xs = {a}"
  from s Cons have x: "x = a" by auto
  have "set ys \<subseteq> {a}" using s Cons by auto
  moreover have "a \<notin> set ys" using d Cons x by simp
  ultimately have "set ys = {}" by (cases ys) auto
  with Cons x show ?thesis by simp
qed

text \<open>
  C7. When the collector emits the same name twice for a message subtree (whatever
  the depth of the two places), \<^verbatim>\<open>namedExpressionDefinitions\<close> throws the input error
  whose description lists every duplicated name, once each. The error comes before
  any text of the message: \<^verbatim>\<open>extractMessages\<close> validates an element first, and the
  validation throws it, so \<^verbatim>\<open>sanitize\<close> and \<^verbatim>\<open>generateMessage\<close> do not run; and
  \<^verbatim>\<open>reconstitute\<close> against such an original throws it for every translation.
\<close>

theorem duplicate_names_rejected:
  assumes "namedExpressionDefinitions' ext ast = Inr listOfPairs"
    and "\<not> distinct (map fst listOfPairs)"
  shows "\<exists>dupes. dupes \<noteq> [] \<and> distinct dupes \<and>
           set dupes = {n. 2 \<le> count_list (map fst listOfPairs) n} \<and>
           namedExpressionDefinitions ext ast =
             Inl (Thrown (InputError
               (''Message has two named expressions with the same name: '' @
                join ext '', '' dupes))) \<and>
           (get ast ''type'' = JStr ''XJSElement'' \<longrightarrow>
              and_then (validateMessage ext ast) (\<lambda>validated.
                and_then (sanitize ext validated) (generateMessage ext)) =
              Inl (Thrown (InputError
               (''Message has two named expressions with the same name: '' @
                join ext '', '' dupes)))) \<and>
           (\<forall>translated. reconstitute ext translated ast =
              Inl (Thrown (InputError
               (''Message has two named expressions with the same name: '' @
                join ext '', '' dupes))))"
proof -
  let ?dupes = "duplicatedValues (map fst listOfPairs)"
  let ?err = "Thrown (InputError
               (''Message has two named expressions with the same name: '' @
                join ext '', '' ?dupes))"
  have ne: "?dupes \<noteq> []" using assms(2) by (rule duplicatedValues_nonempty)
  have named: "namedExpressionDefinitions ext ast = Inl ?err"
    using ne assms(1) by (simp add: namedExpressionDefinitions_def and_then_def Let_def)
  have validated: "and_then (validateMessage ext ast) (\<lambda>validated.
                and_then (sanitize ext validated) (generateMessage ext)) = Inl ?err"
    if "get ast ''type'' = JStr ''XJSElement''"
  proof -
    have "is_coll ast" using that by (rule get_JStr_coll)
    then have "validateMessage ext ast = Inl ?err"
      using that named
      by (simp add: validateMessage.simps validateJsxElement.simps get_m_def)
    then show ?thesis by (simp add: and_then_def)
  qed
  have "reconstitute ext translated ast = Inl ?err" for translated
    using named by (simp add: reconstitute_def and_then_def)
  with ne named validated duplicatedValues_set [of "map fst listOfPairs"]
  show ?thesis by blast
qed

theorem duplicate_names_rejected_witness:
  "namedExpressionDefinitions' (example_externals [])
     (jsx_element (jsx_identifier ''I18N'') []
        [jsx_container (js_identifier ''foo''),
         jsx_element (jsx_identifier ''b'') [] [jsx_container (js_identifier ''foo'')]])
   = Inr [(JStr ''foo'', js_identifier ''foo''), (JStr ''foo'', js_identifier ''foo'')] \<and>
   \<not> distinct (map fst [(JStr ''foo'', js_identifier ''foo''), (JStr ''foo'', js_identifier ''foo'')]) \<and>
   namedExpressionDefinitions (example_externals [])
     (jsx_element (jsx_identifier ''I18N'') []
        [jsx_container (js_identifier ''foo''),
         jsx_element (jsx_identifier ''b'') [] [jsx_container (js_identifier ''foo'')]])
   = Inl (Thrown (InputError ''Message has two named expressions with the same name: foo''))"
proof -
  let ?ext = "example_externals []"
  let ?m = "jsx_element (jsx_identifier ''I18N'') []
        [jsx_container (js_identifier ''foo''),
         jsx_element (jsx_identifier ''b'') [] [jsx_container (js_identifier ''foo'')]]"
  let ?ps = "[(JStr ''foo'', js_identifier ''foo''), (JStr ''foo'', js_identifier ''foo'')]"
  have a: "namedExpressionDefinitions' ?ext ?m = Inr ?ps"
    by (simp add: example_nodes run_simps)
  have b: "\<not> distinct (map fst ?ps)" by simp
  from duplicate_names_rejected [OF a b]
  obtain dupes where d: "distinct dupes"
    "set dupes = {n. 2 \<le> count_list (map fst ?ps) n}"
    "namedExpressionDefinitions ?ext ?m =
       Inl (Thrown (InputError
         (''Message has two named expressions with the same name: '' @ join ?ext '', '' dupes)))"
    by blast
  have "{n. 2 \<le> count_list (map fst ?ps) n} = {JStr ''foo''}" by auto
  with d have "dupes = [JStr ''foo'']" by (simp add: singleton_list)
  with d(3) have "namedExpressionDefinitions ?ext ?m =
     Inl (Thrown (InputError ''Message has two named expressions with the same name: foo''))"
    by simp
  with a b show ?thesis by blast
qed

section \<open>The key of a message\<close>

lemma join_strings: "join ext [] (map JStr ss) = concat ss"
  by (induction ss rule: induct_list012) simp_all

lemma generateJsxChild_printed:
  "is_coll c \<Longrightarrow> generateJsxChild ext c = Inr (JStr (printed_child ext c))"
  by (auto simp: generateJsxChild_def printed_child_def isStringLiteral_def isString_def
      generate_def and_then_def split: jsval.splits)

lemma mapM_generateJsxChild:
  "\<forall>c \<in> set cs. is_coll c \<Longrightarrow>
     mapM (generateJsxChild ext) cs = Inr (map (\<lambda>c. JStr (printed_child ext c)) cs)"
  by (induction cs) (simp_all add: generateJsxChild_printed and_then_def)

lemma markers_exclusive: "isElementMarker m \<Longrightarrow> \<not> isStringMarker m"
  by (simp add: isElementMarker_def isStringMarker_def)

text \<open>
  C9. The key of a string marker is the string value of its first argument, a string
  literal; the key of an element marker is the concatenation, in the order of the
  children, of the text of each child (a string literal as its raw value, any other
  child as printed); and when the parser returns for a source the tree of
  \<^verbatim>\<open>i18n("Hello, world!")\<close>, \<^verbatim>\<open>extractMessages\<close> returns the one-element list of
  \<^verbatim>\<open>Hello, world!\<close>.
\<close>

theorem generateMessage_key:
  "(isStringMarker m \<and> isStringLiteral (getIn m [K ''arguments'', Ix 0]) \<and>
      get (getIn m [K ''arguments'', Ix 0]) ''value'' = JStr s \<longrightarrow>
      generateMessage ext m = Inr (JStr s)) \<and>
   (isElementMarker m \<and> get m ''children'' = JList cs \<and> (\<forall>c \<in> set cs. is_coll c) \<longrightarrow>
      generateMessage ext m = Inr (JStr (concat (map (printed_child ext) cs)))) \<and>
   (esprima_parse ext src =
      Some (js_program [js_call (js_identifier ''i18n'') [js_string ''Hello, world!'']]) \<longrightarrow>
      extractMessages ext src = Inr [JStr ''Hello, world!''])"
proof (intro conjI impI)
  assume "isStringMarker m \<and> isStringLiteral (getIn m [K ''arguments'', Ix 0]) \<and>
      get (getIn m [K ''arguments'', Ix 0]) ''value'' = JStr s"
  then show "generateMessage ext m = Inr (JStr s)"
    by (simp add: generateMessage_def get_def)
next
  assume a: "isElementMarker m \<and> get m ''children'' = JList cs \<and> (\<forall>c \<in> set cs. is_coll c)"
  then have "mapM (generateJsxChild ext) cs = Inr (map (\<lambda>c. JStr (printed_child ext c)) cs)"
    by (simp add: mapM_generateJsxChild)
  moreover have "join ext [] (map (\<lambda>c. JStr (printed_child ext c)) cs) =
      concat (map (printed_child ext) cs)"
    using join_strings [of ext "map (printed_child ext) cs"] by (simp add: comp_def)
  ultimately show "generateMessage ext m = Inr (JStr (concat (map (printed_child ext) cs)))"
    using a by (simp add: generateMessage_def markers_exclusive as_list_def and_then_def)
next
  let ?call = "js_call (js_identifier ''i18n'') [js_string ''Hello, world!'']"
  let ?ast = "js_program [?call]"
  assume p: "esprima_parse ext src = Some ?ast"
  have marker: "isStringMarker ?call"
    by (simp add: isStringMarker_def example_nodes get_def)
  have kps: "allKeypathsInAst ?ast = Inr
     [[K ''type''], [K ''body''], [K ''body'', Ix 0], [K ''body'', Ix 0, K ''type''],
      [K ''body'', Ix 0, K ''expression''],
      [K ''body'', Ix 0, K ''expression'', K ''type''],
      [K ''body'', Ix 0, K ''expression'', K ''callee''],
      [K ''body'', Ix 0, K ''expression'', K ''callee'', K ''type''],
      [K ''body'', Ix 0, K ''expression'', K ''callee'', K ''name''],
      [K ''body'', Ix 0, K ''expression'', K ''arguments''],
      [K ''body'', Ix 0, K ''expression'', K ''arguments'', Ix 0],
      [K ''body'', Ix 0, K ''expression'', K ''arguments'', Ix 0, K ''type''],
      [K ''body'', Ix 0, K ''expression'', K ''arguments'', Ix 0, K ''value'']]"
    by (simp add: allKeypathsInAst_def example_nodes)
  have keypaths: "keypathsForMessageNodesInAst ext ?ast = Inr [[K ''body'', Ix 0, K ''expression'']]"
    unfolding keypathsForMessageNodesInAst_def kps
    by (simp add: and_then_def Let_def isMarker_def isStringMarker_def isElementMarker_def
        example_nodes get_def validateStringMarker_def size_of_def isStringLiteral_def isString_def)
  have msg: "map (getIn ?ast) [[K ''body'', Ix 0, K ''expression'']] = [?call]"
    by (simp add: example_nodes)
  have v: "validateMessage ext ?call = Inr ?call"
    by (simp add: validateMessage.simps validateCallExpression_def isStringMarker_def
        example_nodes get_def get_m_def)
  have sn: "sanitize ext ?call = Inr ?call"
    by (simp add: sanitize.simps get_m_def example_nodes get_def)
  have g: "generateMessage ext ?call = Inr (JStr ''Hello, world!'')"
    by (simp add: generateMessage_def isStringMarker_def example_nodes get_def)
  have fj: "fromJS ext ?ast = ?ast"
    by (simp add: example_nodes entries_in_order_def)
  show "extractMessages ext src = Inr [JStr ''Hello, world!'']"
    by (simp add: extractMessages_def parse_def p fj keypaths msg v sn g del: list.map getIn.simps)
qed

theorem generateMessage_key_witness:
  "extractMessages
     (example_externals
        [(''i18n('' @ [CHR 0x22] @ ''Hello, world!'' @ [CHR 0x22] @ '')'',
          js_program [js_call (js_identifier ''i18n'') [js_string ''Hello, world!'']])])
     (''i18n('' @ [CHR 0x22] @ ''Hello, world!'' @ [CHR 0x22] @ '')'')
   = Inr [JStr ''Hello, world!'']"
  using generateMessage_key [of
      "js_call (js_identifier ''i18n'') [js_string ''Hello, world!'']" "''Hello, world!''"
      "example_externals
        [(''i18n('' @ [CHR 0x22] @ ''Hello, world!'' @ [CHR 0x22] @ '')'',
          js_program [js_call (js_identifier ''i18n'') [js_string ''Hello, world!'']])]"
      "[]"
      "''i18n('' @ [CHR 0x22] @ ''Hello, world!'' @ [CHR 0x22] @ '')''"]
  by (simp add: example_externals_def)

section \<open>Looking up designations and placeholders\<close>

lemma named_coll: "isNamedExpression e \<Longrightarrow> is_coll e"
  by (subst (asm) isNamedExpression_def, subst (asm) isSimpleMemberExpression.simps)
     (auto simp: isIdentifier_def dest: get_JStr_coll split: if_splits)

section \<open>Validation and the sanitizing of expression containers\<close>

lemma mapM_first_error:
  "\<forall>x \<in> set pre. \<exists>y. g x = Inr y \<Longrightarrow> g c = Inl e \<Longrightarrow> mapM g (pre @ c # post) = Inl e"
  by (induction pre) auto

lemma sanitize_container:
  "get c ''type'' = JStr ''XJSExpressionContainer'' \<Longrightarrow>
     sanitize ext c =
       and_then (generate ext (get c ''expression'')) (\<lambda>name.
       and_then (parseFragment ext name) (\<lambda>literal. set_m c ''expression'' literal))"
  by (subst sanitize.simps)
     (auto simp: get_m_def sanitizeJsxExpressionContainer_def makeLiteralExpressionAst_def
        nameAndExpressionForNamedExpression_def and_then_def
        dest: get_JStr_coll split: sum.splits)

lemma set_m_JMap: "set_m (JMap es) k v = Inr (JMap (set_entry k v es))"
  by (simp add: set_m_def setIn_m_def)

lemma map_of_set_entry: "map_of (set_entry k v es) k = Some v"
  by (induction es) auto

lemma validateMessage_returns: "validateMessage ext m = Inr validated \<Longrightarrow> validated = m"
  by (subst (asm) validateMessage.simps) (auto simp: and_then_Inr)





section \<open>A missing translation\<close>

lemma reduceRight_last:
  "reduceRight g (ks @ [p]) acc = and_then (g acc p) (\<lambda>acc'. reduceRight g ks acc')"
  by (induction ks) (simp_all add: and_then_def split: sum.splits)




section \<open>Reconstituting an element with a designation\<close>

lemma setIn2:
  "map_of es a = Some (JMap aes) \<Longrightarrow>
     setIn_m (JMap es) [K a, K b] v = Inr (JMap (set_entry a (JMap (set_entry b v aes)) es))"
  by (simp add: setIn_m_def Let_def)

lemma setIn2_missing:
  "map_of es a = None \<Longrightarrow>
     setIn_m (JMap es) [K a, K b] v = Inr (JMap (set_entry a (JMap [(b, v)]) es))"
  by (simp add: setIn_m_def Let_def)

lemma someM_False: "someM g xs = Inr False \<Longrightarrow> x \<in> set xs \<Longrightarrow> g x = Inr False"
  by (induction xs) (auto simp: and_then_def split: sum.splits if_splits)

lemma mapM_map: "\<forall>x \<in> set xs. g x = Inr (h x) \<Longrightarrow> mapM g xs = Inr (map h xs)"
  by (induction xs) simp_all

lemma filterM_filter: "\<forall>x \<in> set xs. g x = Inr (P x) \<Longrightarrow> filterM g xs = Inr (filter P xs)"
  by (induction xs) simp_all

lemma attributeMap_list:
  "\<forall>a \<in> set xs. is_coll a \<Longrightarrow> attributeMap (JList xs) = Inr (attribute_pairs xs)"
proof -
  assume "\<forall>a \<in> set xs. is_coll a"
  then have "mapM (\<lambda>a. and_then (get_m a ''name'') (\<lambda>n.
                          and_then (get_m a ''value'') (\<lambda>v. Inr (n, v)))) xs
      = Inr (map (\<lambda>a. (get a ''name'', get a ''value'')) xs)"
    by (intro mapM_map) (simp add: get_m_def)
  then show ?thesis by (simp add: attributeMap_def as_list_def attribute_pairs_def)
qed

lemma componentNameAst_same_name:
  assumes "componentNameAst ext x = Inr n" and "is_coll y"
    and "getIn y [K ''openingElement'', K ''name''] = getIn x [K ''openingElement'', K ''name'']"
  shows "componentNameAst ext y = Inr n"
  using assms
  by (auto simp: componentNameAst_def getIn_m_def get_m_def and_then_def
      split: if_splits sum.splits)

lemma keys_set_entry:
  "map fst (set_entry k v es) = (if k \<in> fst ` set es then map fst es else map fst es @ [k])"
proof (induction es)
  case Nil
  then show ?case by simp
next
  case (Cons e es)
  obtain a b where e: "e = (a, b)" by (cases e)
  show ?case
  proof (cases "a = k")
    case True
    then show ?thesis by (simp add: e)
  next
    case False
    then have "k \<in> fst ` set (e # es) \<longleftrightarrow> k \<in> fst ` set es" by (auto simp: e)
    then show ?thesis using False Cons by (simp add: e)
  qed
qed

section \<open>The round trip of sanitize and reconstitute\<close>

lemma set_entry_same: "map_of es k = Some v \<Longrightarrow> set_entry k v es = es"
  by (induction es) (auto split: if_splits)

lemma set_m_same: "get m k = v \<Longrightarrow> v \<noteq> Undefined \<Longrightarrow> is_map m \<Longrightarrow> set_m m k v = Inr m"
  by (cases m) (auto simp: set_m_def setIn_m_def get_def set_entry_same split: option.splits)

lemma setIn2_same:
  "getIn m [K a, K b] = v \<Longrightarrow> v \<noteq> Undefined \<Longrightarrow> is_map m \<Longrightarrow> setIn_m m [K a, K b] v = Inr m"
proof -
  assume g: "getIn m [K a, K b] = v" and v: "v \<noteq> Undefined" and "is_map m"
  then obtain es where m: "m = JMap es" by (cases m) simp_all
  show ?thesis
  proof (cases "map_of es a")
    case None
    with g v show ?thesis by (simp add: m)
  next
    case (Some x)
    show ?thesis
    proof (cases x)
      case (JMap aes)
      show ?thesis
      proof (cases "map_of aes b")
        case None
        with g v Some JMap show ?thesis by (simp add: m)
      next
        case (Some y)
        with g \<open>map_of es a = Some x\<close> JMap have "y = v" by (simp add: m)
        with Some \<open>map_of es a = Some x\<close> JMap show ?thesis
          by (simp add: m setIn_m_def Let_def set_entry_same)
      qed
    qed (use g v Some in \<open>simp_all add: m\<close>)
  qed
qed

lemma mapM_id: "\<forall>x \<in> set xs. g x = Inr x \<Longrightarrow> mapM g xs = Inr xs"
  by (induction xs) simp_all

text \<open>What an element without unsafe attributes looks like.\<close>

lemma safe_element:
  assumes "get m ''type'' = JStr ''XJSElement''" and "hasUnsafeAttributes ext m = Inr False"
  obtains cname attrs where "is_map m" "componentName ext m = Inr cname"
    "attributes m = Inr (JList attrs)" "getIn m [K ''openingElement'', K ''attributes''] = JList attrs"
    "\<forall>a \<in> set attrs. attributeIsSafe cname a = Inr True"
    "\<forall>a \<in> set attrs. is_coll a"
proof -
  from assms(2) obtain cname attrs where
    cname: "componentName ext m = Inr cname"
    and attrs: "attributes m = Inr (JList attrs)"
    and some: "someM (\<lambda>a. and_then (attributeIsSafe cname a) (\<lambda>safe. Inr (\<not> safe))) attrs
                 = Inr False"
    by (auto simp: hasUnsafeAttributes_def and_then_Inr as_list_Inr)
  have m: "is_map m" using assms(1) by (cases m) (simp_all add: get_def)
  have g: "getIn m [K ''openingElement'', K ''attributes''] = JList attrs"
    using attrs by (simp add: attributes_def getIn_m_def split: if_splits)
  have safe: "\<forall>a \<in> set attrs. attributeIsSafe cname a = Inr True"
  proof
    fix a assume "a \<in> set attrs"
    with some have "and_then (attributeIsSafe cname a) (\<lambda>safe. Inr (\<not> safe)) = Inr False"
      by (rule someM_False)
    then show "attributeIsSafe cname a = Inr True" by (auto simp: and_then_Inr)
  qed
  have "\<forall>a \<in> set attrs. is_coll a"
  proof
    fix a assume "a \<in> set attrs"
    with safe have "attributeIsSafe cname a = Inr True" by simp
    then obtain n where "attributeName a = Inr n"
      by (auto simp: and_then_Inr attributeIsSafe_def Let_def split: if_splits)
    then show "is_coll a" by (simp add: attributeName_def getIn_m_def split: if_splits)
  qed
  with m cname attrs g safe show ?thesis using that by blast
qed

lemma attributeWithName_total:
  assumes "attributes m = Inr (JList attrs)" and "\<forall>a \<in> set attrs. is_coll a"
  shows "\<exists>v. attributeWithName m name = Inr v"
proof -
  have "filterM (\<lambda>attrib. and_then (attributeName attrib) (\<lambda>n. Inr (n = JStr name))) attrs
      = Inr (filter (\<lambda>a. getIn a [K ''name'', K ''name''] = JStr name) attrs)"
    using assms(2) by (intro filterM_filter) (simp add: attributeName_def getIn_m_def)
  moreover have "\<forall>a \<in> set (filter (\<lambda>a. getIn a [K ''name'', K ''name''] = JStr name) attrs). is_coll a"
    using assms(2) by simp
  ultimately show ?thesis
    using assms(1)
    by (cases "filter (\<lambda>a. getIn a [K ''name'', K ''name''] = JStr name) attrs")
       (simp_all add: attributeWithName_def as_list_def attributeValue_def getIn_m_def
          del: getIn.simps)
qed

lemma plain_element_steps:
  assumes "get m ''type'' = JStr ''XJSElement''" and "hasUnsafeAttributes ext m = Inr False"
    and "componentDesignation ext m = Inr d" and "\<not> truthy d"
  shows "rewriteDesignationToNamespaceSyntax ext m = Inr m"
    and "withSafeAttributesOnly ext m = Inr m"
    and "namedExpressionDefinitionsInJsxElement ext m =
           and_then (as_list (get m ''children'')) (\<lambda>children.
           and_then (mapM (namedExpressionDefinitions' ext) children) (\<lambda>defs.
             Inr (concat defs)))"
proof -
  from assms(1,2) obtain cname attrs where s: "is_map m" "componentName ext m = Inr cname"
    "attributes m = Inr (JList attrs)" "getIn m [K ''openingElement'', K ''attributes''] = JList attrs"
    "\<forall>a \<in> set attrs. attributeIsSafe cname a = Inr True"
    "\<forall>a \<in> set attrs. is_coll a"
    by (rule safe_element)
  from attributeWithName_total [OF s(3,6)] obtain v where
    "attributeWithName m ''i18n-designation'' = Inr v" by blast
  then show "rewriteDesignationToNamespaceSyntax ext m = Inr m"
    using assms(3,4) s(2) by (simp add: rewriteDesignationToNamespaceSyntax_def)
  have "filterM (attributeIsSafe cname) attrs = Inr (filter (\<lambda>a. True) attrs)"
    using s(5) by (intro filterM_filter) simp
  then show "withSafeAttributesOnly ext m = Inr m"
    using s by (simp add: withSafeAttributesOnly_def updateAttributes_def as_list_def setIn2_same)
  have "filterM (\<lambda>attrib. and_then (componentName ext m) (\<lambda>name.
          and_then (attributeIsSafe name attrib) (\<lambda>safe. Inr (\<not> safe)))) attrs
      = Inr (filter (\<lambda>a. False) attrs)"
    using s(5) by (intro filterM_filter) (simp add: s(2))
  then show "namedExpressionDefinitionsInJsxElement ext m =
           and_then (as_list (get m ''children'')) (\<lambda>children.
           and_then (mapM (namedExpressionDefinitions' ext) children) (\<lambda>defs.
             Inr (concat defs)))"
    using s(3) by (subst namedExpressionDefinitionsInJsxElement.simps) (simp add: as_list_def)
qed


lemma mapM_const: "\<forall>x \<in> set xs. g x = Inr c \<Longrightarrow> mapM g xs = Inr (map (\<lambda>x. c) xs)"
  by (induction xs) simp_all

lemma concat_empties: "concat (map (\<lambda>x. []) xs) = []"
  by (induction xs) simp_all

lemma plain_fixed:
  "plain ext m \<Longrightarrow>
     sanitize ext m = Inr m \<and> namedExpressionDefinitions' ext m = Inr [] \<and>
     (\<forall>definitions. reconstitute' ext m definitions = Inr m)"
proof (induction ext m rule: plain.induct)
  case (1 ext m)
  show ?case
  proof (cases "get m ''type'' = JStr ''Literal''")
    case True
    then have "is_coll m" by (rule get_JStr_coll)
    with True show ?thesis
      by (simp add: sanitize.simps namedExpressionDefinitions'.simps reconstitute'.simps get_m_def)
  next
    case False
    with "1.prems" have type: "get m ''type'' = JStr ''XJSElement''"
      by (subst (asm) plain.simps) (simp split: if_splits)
    with "1.prems" False obtain d children where
      unsafe: "hasUnsafeAttributes ext m = Inr False"
      and desig: "componentDesignation ext m = Inr d" "\<not> truthy d"
      and kids: "get m ''children'' = JList children" "list_all (plain ext) children"
      by (subst (asm) plain.simps) (auto split: sum.splits jsval.splits)
    have coll: "is_coll m" using type by (rule get_JStr_coll)
    have map: "is_map m" using type by (cases m) (simp_all add: get_def)
    have ih: "\<forall>x \<in> set children. sanitize ext x = Inr x \<and>
        namedExpressionDefinitions' ext x = Inr [] \<and>
        (\<forall>definitions. reconstitute' ext x definitions = Inr x)"
      using "1.IH" [OF False type kids(1)] kids(2) by (simp add: list_all_iff)
    note steps = plain_element_steps [OF type unsafe desig]
    have setc: "set_m m ''children'' (JList children) = Inr m"
      using kids(1) map by (intro set_m_same) simp_all
    have "mapM (sanitize ext) children = Inr children"
      using ih by (intro mapM_id) simp
    then have "sanitizeJsxElement ext m = Inr m"
      by (subst sanitizeJsxElement.simps) (simp add: steps kids(1) as_list_def setc)
    then have s: "sanitize ext m = Inr m"
      using type coll by (subst sanitize.simps) (simp add: get_m_def)
    have "mapM (namedExpressionDefinitions' ext) children = Inr (map (\<lambda>x. []) children)"
      using ih by (intro mapM_const) simp
    then have "namedExpressionDefinitionsInJsxElement ext m = Inr []"
      by (simp add: steps(3) kids(1) as_list_def concat_empties)
    then have n: "namedExpressionDefinitions' ext m = Inr []"
      using type coll by (subst namedExpressionDefinitions'.simps) (simp add: get_m_def)
    have r: "reconstitute' ext m definitions = Inr m" for definitions
    proof -
      have "mapM (\<lambda>child. reconstitute' ext child definitions) children = Inr children"
        using ih by (intro mapM_id) simp
      then have "reconstituteJsxElement ext m definitions = Inr m"
        by (subst reconstituteJsxElement.simps)
           (simp add: unsafe desig kids(1) as_list_def setc)
      then show ?thesis
        using type coll by (subst reconstitute'.simps) (simp add: get_m_def)
    qed
    from s n r show ?thesis by blast
  qed
qed

text \<open>
  C1 (amended). For every element message without hidden attributes, without
  expression containers and without designations, \<^verbatim>\<open>sanitize\<close> returns the message
  itself and \<^verbatim>\<open>reconstitute(sanitize(m), m)\<close> returns the message itself, so printing
  the result gives the text that printing the message gives.
\<close>

theorem plain_message_round_trip:
  assumes "plain ext m"
  shows "sanitize ext m = Inr m \<and>
         and_then (sanitize ext m) (\<lambda>sanitized. reconstitute ext sanitized m) = Inr m \<and>
         and_then (and_then (sanitize ext m) (\<lambda>sanitized. reconstitute ext sanitized m))
           (generate ext) = generate ext m"
proof -
  from plain_fixed [OF assms] have s: "sanitize ext m = Inr m"
    and n: "namedExpressionDefinitions' ext m = Inr []"
    and r: "reconstitute' ext m [] = Inr m" by simp_all
  have "namedExpressionDefinitions ext m = Inr []"
    by (simp add: namedExpressionDefinitions_def n duplicatedValues_def map_of_pairs_def)
  then have "reconstitute ext m m = Inr m" by (simp add: reconstitute_def r)
  with s show ?thesis by simp
qed

theorem plain_message_round_trip_witness:
  "plain (example_externals [])
     (jsx_element (jsx_identifier ''I18N'') []
        [js_string ''Hello, '',
         jsx_element (jsx_identifier ''a'') [jsx_attribute (jsx_identifier ''href'') ''example.com'']
           [js_string ''world'']]) \<and>
   and_then (sanitize (example_externals [])
      (jsx_element (jsx_identifier ''I18N'') []
        [js_string ''Hello, '',
         jsx_element (jsx_identifier ''a'') [jsx_attribute (jsx_identifier ''href'') ''example.com'']
           [js_string ''world'']]))
     (\<lambda>sanitized. reconstitute (example_externals []) sanitized
        (jsx_element (jsx_identifier ''I18N'') []
          [js_string ''Hello, '',
           jsx_element (jsx_identifier ''a'') [jsx_attribute (jsx_identifier ''href'') ''example.com'']
             [js_string ''world'']]))
   = Inr (jsx_element (jsx_identifier ''I18N'') []
        [js_string ''Hello, '',
         jsx_element (jsx_identifier ''a'') [jsx_attribute (jsx_identifier ''href'') ''example.com'']
           [js_string ''world'']])"
proof -
  let ?m = "jsx_element (jsx_identifier ''I18N'') []
        [js_string ''Hello, '',
         jsx_element (jsx_identifier ''a'') [jsx_attribute (jsx_identifier ''href'') ''example.com'']
           [js_string ''world'']]"
  have p: "plain (example_externals []) ?m" by code_simp
  from plain_message_round_trip [OF p] p show ?thesis by blast
qed

text \<open>
  C1 as stated covers every message without hidden attributes and expression
  containers. The message \<^verbatim>\<open><I18N><a:foo href="x">t</a:foo></I18N>\<close> has none (its
  definitions are empty, and \<^verbatim>\<open>sanitize\<close> returns it unchanged), and reconstituting
  it against itself throws: the designation \<^verbatim>\<open>foo\<close> is not in the definitions.
  The string marker \<^verbatim>\<open>i18n("Hello")\<close> has none either, and \<^verbatim>\<open>reconstitute\<close> has no
  case for a call expression.
\<close>

theorem round_trip_counterexample:
  "namedExpressionDefinitions (example_externals [])
     (jsx_element (jsx_identifier ''I18N'') []
        [jsx_element (jsx_namespaced ''a'' ''foo'') [jsx_attribute (jsx_identifier ''href'') ''x'']
           [js_string ''t'']]) = Inr [] \<and>
   sanitize (example_externals [])
     (jsx_element (jsx_identifier ''I18N'') []
        [jsx_element (jsx_namespaced ''a'' ''foo'') [jsx_attribute (jsx_identifier ''href'') ''x'']
           [js_string ''t'']])
   = Inr (jsx_element (jsx_identifier ''I18N'') []
        [jsx_element (jsx_namespaced ''a'' ''foo'') [jsx_attribute (jsx_identifier ''href'') ''x'']
           [js_string ''t'']]) \<and>
   and_then (sanitize (example_externals [])
      (jsx_element (jsx_identifier ''I18N'') []
        [jsx_element (jsx_namespaced ''a'' ''foo'') [jsx_attribute (jsx_identifier ''href'') ''x'']
           [js_string ''t'']]))
     (\<lambda>sanitized. reconstitute (example_externals []) sanitized
        (jsx_element (jsx_identifier ''I18N'') []
          [jsx_element (jsx_namespaced ''a'' ''foo'') [jsx_attribute (jsx_identifier ''href'') ''x'']
             [js_string ''t'']]))
   = Inl (Thrown (InputError
       (''Translation contains designation '' @ [CHR 0x27] @ ''foo'' @ [CHR 0x27] @
        '', which is not in the original.''))) \<and>
   and_then (sanitize (example_externals [])
               (js_call (js_identifier ''i18n'') [js_string ''Hello'']))
     (\<lambda>sanitized. reconstitute (example_externals []) sanitized
        (js_call (js_identifier ''i18n'') [js_string ''Hello'']))
   = Inl TypeError"
  by code_simp

section \<open>The order of the driver and the keypaths still to be processed\<close>

text \<open>
  Writing at a keypath changes the document only at that keypath and below it:
  what is read at a prefix of the keypath is the old value with the same write
  applied to it, and what is read elsewhere is unchanged.
\<close>

lemma in_order_append:
  "in_order g (xs @ ys) acc = and_then (in_order g xs acc) (in_order g ys)"
  by (induction xs arbitrary: acc) (simp_all add: and_then_def split: sum.splits)

lemma reduceRight_in_order: "reduceRight g ks acc = in_order g (rev ks) acc"
  by (induction ks) (simp_all add: in_order_append and_then_def split: sum.splits)

lemma get_key_created: "get_key (if c = Undefined then JMap [] else c) k = get_key c k"
  by (cases k) simp_all

lemma set_key_get_same: "set_key c k n = Some c' \<Longrightarrow> get_key c' k = n"
proof (cases c)
  case (JMap es)
  assume "set_key c k n = Some c'"
  with JMap show ?thesis
    by (cases k) (auto simp: map_of_set_entry_eq)
next
  case (JList xs)
  assume "set_key c k n = Some c'"
  with JList show ?thesis
    by (cases k) (auto simp: nth_append)
qed simp_all

lemma set_key_get_other: "set_key c k n = Some c' \<Longrightarrow> k' \<noteq> k \<Longrightarrow> get_key c' k' = get_key c k'"
proof (cases c)
  case (JMap es)
  assume "set_key c k n = Some c'" "k' \<noteq> k"
  with JMap show ?thesis
    by (cases k; cases k') (auto simp: map_of_set_entry_eq)
next
  case (JList xs)
  assume "set_key c k n = Some c'" "k' \<noteq> k"
  with JList show ?thesis
    by (cases k; cases k') (auto simp: nth_append nth_Cons' split: if_splits)
qed simp_all

lemma setIn_get_prefix:
  "setIn c (p @ r) v = Some c' \<Longrightarrow> \<exists>n. setIn (getIn c p) r v = Some n \<and> getIn c' p = n"
proof (induction p arbitrary: c c')
  case Nil
  then show ?case by simp
next
  case (Cons k p)
  let ?c0 = "if c = Undefined then JMap [] else c"
  from Cons.prems obtain n1 where n1: "setIn (get_key ?c0 k) (p @ r) v = Some n1"
    and c': "set_key ?c0 k n1 = Some c'"
    by (auto simp: Let_def split: option.splits)
  from Cons.IH [OF n1] obtain n where n: "setIn (getIn (get_key ?c0 k) p) r v = Some n"
    "getIn n1 p = n" by blast
  have "get_key c' k = n1" using c' by (rule set_key_get_same)
  with n show ?case by (simp add: get_key_created)
qed

lemma setIn_get_same: "setIn c q v = Some c' \<Longrightarrow> getIn c' q = v"
  using setIn_get_prefix [of c q "[]" v c'] by simp

lemma setIn_disjoint:
  "setIn c q v = Some c' \<Longrightarrow> \<not> prefix q p \<Longrightarrow> \<not> prefix p q \<Longrightarrow> getIn c' p = getIn c p"
proof (induction q arbitrary: c c' p)
  case Nil
  then show ?case by simp
next
  case (Cons k q)
  let ?c0 = "if c = Undefined then JMap [] else c"
  from Cons.prems(1) obtain n1 where n1: "setIn (get_key ?c0 k) q v = Some n1"
    and c': "set_key ?c0 k n1 = Some c'"
    by (auto simp: Let_def split: option.splits)
  from Cons.prems(3) obtain k1 p' where p: "p = k1 # p'" by (cases p) auto
  show ?case
  proof (cases "k1 = k")
    case True
    with Cons.prems p have "\<not> prefix q p'" "\<not> prefix p' q" by auto
    from Cons.IH [OF n1 this] have "getIn n1 p' = getIn (get_key ?c0 k) p'" .
    moreover have "get_key c' k = n1" using c' by (rule set_key_get_same)
    ultimately show ?thesis using True by (simp add: p get_key_created)
  next
    case False
    then have "get_key c' k1 = get_key ?c0 k1" using set_key_get_other [OF c'] by blast
    then show ?thesis by (simp add: p get_key_created)
  qed
qed


lemma getIn_append: "getIn c (p @ r) = getIn (getIn c p) r"
  by (induction p arbitrary: c) simp_all

lemma getIn_Undefined: "getIn Undefined r = Undefined"
  by (induction r) simp_all

lemma getIn_scalar: "\<not> is_coll x \<Longrightarrow> r \<noteq> [] \<Longrightarrow> getIn x r = Undefined"
  by (cases r; cases x) (simp_all add: getIn_Undefined)

lemma marker_coll: "isMarker x \<Longrightarrow> is_coll x"
  by (auto simp: isMarker_def isStringMarker_def isElementMarker_def dest: get_JStr_coll)

lemma leaf_preserved:
  assumes "setIn m r v = Some m'" and "r \<noteq> []" and "isMarker (getIn m r)"
    and "\<not> is_coll (getIn m l)"
    and "\<forall>l0. strict_prefix l0 l \<and> l0 \<noteq> [] \<longrightarrow> \<not> isMarker (getIn m l0)"
  shows "getIn m' l = getIn m l"
proof -
  have "\<not> prefix r l"
  proof
    assume "prefix r l"
    then consider "r = l" | "strict_prefix r l" by (auto simp: strict_prefix_def)
    then show False
    proof cases
      case 1
      with assms(3,4) show False by (auto dest: marker_coll)
    next
      case 2
      with assms(2,3,5) show False by blast
    qed
  qed
  moreover have "\<not> prefix l r"
  proof
    assume "prefix l r"
    then obtain r' where r: "r = l @ r'" by (auto simp: prefix_def)
    show False
    proof (cases "r' = []")
      case True
      with r assms(3,4) show False by (auto dest: marker_coll)
    next
      case False
      then have "getIn m r = Undefined" using assms(4) by (simp add: r getIn_append getIn_scalar)
      with assms(3) show False by (auto dest: marker_coll)
    qed
  qed
  ultimately show ?thesis using assms(1) by (rule setIn_disjoint [rotated 1])
qed

lemma strict_prefix_one: "strict_prefix l0 [a] \<Longrightarrow> l0 \<noteq> [] \<Longrightarrow> False"
  by (cases l0) (auto simp: strict_prefix_def)

lemma strict_prefix_two: "strict_prefix l0 [a, b] \<Longrightarrow> l0 \<noteq> [] \<Longrightarrow> l0 = [a]"
  by (cases l0; cases "tl l0") (auto simp: strict_prefix_def)

lemma strict_prefix_three:
  "strict_prefix l0 [a, b, c] \<Longrightarrow> l0 \<noteq> [] \<Longrightarrow> l0 = [a] \<or> l0 = [a, b]"
  by (cases l0; cases "tl l0"; cases "tl (tl l0)") (auto simp: strict_prefix_def)

lemma isStringMarker_getIn:
  "isStringMarker m \<longleftrightarrow>
     getIn m [K ''type''] = JStr ''CallExpression'' \<and>
     getIn m [K ''callee'', K ''type''] = JStr ''Identifier'' \<and>
     getIn m [K ''callee'', K ''name''] = JStr ''i18n''"
  by (simp add: isStringMarker_def get_def)

lemma isElementMarker_getIn:
  "isElementMarker m \<longleftrightarrow>
     getIn m [K ''type''] = JStr ''XJSElement'' \<and>
     getIn m [K ''openingElement'', K ''type''] = JStr ''XJSOpeningElement'' \<and>
     getIn m [K ''openingElement'', K ''selfClosing''] = JBool False \<and>
     getIn m [K ''openingElement'', K ''name'', K ''type''] = JStr ''XJSIdentifier'' \<and>
     getIn m [K ''openingElement'', K ''name'', K ''name''] = JStr ''I18N''"
  by (simp add: isElementMarker_def get_def)

lemma string_marker_preserved:
  assumes "setIn m r v = Some m'" and "r \<noteq> []" and "isMarker (getIn m r)" and "isStringMarker m"
  shows "isStringMarker m'"
proof -
  note s = assms(4) [unfolded isStringMarker_getIn]
  have callee: "\<not> isMarker (getIn m [K ''callee''])"
    using s by (simp add: isMarker_def isStringMarker_def isElementMarker_def get_def)
  have "getIn m' [K ''type''] = getIn m [K ''type'']"
    using assms(1-3) s by (intro leaf_preserved) (auto dest: strict_prefix_one)
  moreover have "getIn m' [K ''callee'', K ''type''] = getIn m [K ''callee'', K ''type'']"
    using assms(1-3) s callee
    by (intro leaf_preserved) (auto dest!: strict_prefix_two)
  moreover have "getIn m' [K ''callee'', K ''name''] = getIn m [K ''callee'', K ''name'']"
    using assms(1-3) s callee
    by (intro leaf_preserved) (auto dest!: strict_prefix_two)
  ultimately show ?thesis using s by (simp only: isStringMarker_getIn)
qed

lemma element_marker_preserved:
  assumes "setIn m r v = Some m'" and "r \<noteq> []" and "isMarker (getIn m r)" and "isElementMarker m"
  shows "isElementMarker m'"
proof -
  note s = assms(4) [unfolded isElementMarker_getIn]
  have oe: "\<not> isMarker (getIn m [K ''openingElement''])"
    using s by (simp add: isMarker_def isStringMarker_def isElementMarker_def get_def)
  have nm: "\<not> isMarker (getIn m [K ''openingElement'', K ''name''])"
    using s by (simp add: isMarker_def isStringMarker_def isElementMarker_def get_def)
  have "getIn m' [K ''type''] = getIn m [K ''type'']"
    using assms(1-3) s by (intro leaf_preserved) (auto dest: strict_prefix_one)
  moreover have "getIn m' [K ''openingElement'', K ''type''] = getIn m [K ''openingElement'', K ''type'']"
    using assms(1-3) s oe by (intro leaf_preserved) (auto dest!: strict_prefix_two)
  moreover have "getIn m' [K ''openingElement'', K ''selfClosing'']
      = getIn m [K ''openingElement'', K ''selfClosing'']"
    using assms(1-3) s oe by (intro leaf_preserved) (auto dest!: strict_prefix_two)
  moreover have "getIn m' [K ''openingElement'', K ''name'', K ''type'']
      = getIn m [K ''openingElement'', K ''name'', K ''type'']"
    using assms(1-3) s oe nm by (intro leaf_preserved) (auto dest!: strict_prefix_three)
  moreover have "getIn m' [K ''openingElement'', K ''name'', K ''name'']
      = getIn m [K ''openingElement'', K ''name'', K ''name'']"
    using assms(1-3) s oe nm by (intro leaf_preserved) (auto dest!: strict_prefix_three)
  ultimately show ?thesis using s by (simp only: isElementMarker_getIn)
qed


lemma substitute_success:
  assumes "substitute ext translations c x = Inr c'"
  shows "\<exists>reconstituted. isMarker (getIn c x) \<and> setIn c x reconstituted = Some c' \<and>
           getIn c' x = reconstituted"
proof -
  from assms have coll: "is_coll c"
    by (auto simp: substitute_def getIn_m_def annotate_def split: if_splits)
  from assms obtain key where key: "and_then (sanitize ext (getIn c x)) (generateMessage ext) = Inr key"
    using coll by (auto simp: substitute_def getIn_m_def split: sum.splits)
  let ?translation = "translations (to_string ext key)"
  from assms key coll have t: "truthy ?translation"
    by (auto simp: substitute_def getIn_m_def Let_def split: if_splits)
  from assms key coll t obtain prepared where
    p: "prepareTranslationForParsing ext ?translation (getIn c x) = Inr prepared"
    by (auto simp: substitute_def getIn_m_def Let_def split: sum.splits)
  then have marker: "isMarker (getIn c x)"
    by (auto simp: prepareTranslationForParsing_def isMarker_def split: if_splits)
  from assms key coll t p obtain r where "setIn_m c x r = Inr c'"
    by (auto simp: substitute_def getIn_m_def Let_def and_then_Inr split: sum.splits)
  then have "setIn c x r = Some c'"
    by (auto simp: setIn_m_def split: if_splits option.splits)
  with marker show ?thesis using setIn_get_same by blast
qed

lemma markers_exclusive': "isElementMarker m \<Longrightarrow> \<not> isStringMarker m"
  by (simp add: isElementMarker_def isStringMarker_def)

lemma pending_preserved:
  assumes "in_order (substitute ext translations) done ast = Inr cur"
    and "\<forall>q \<in> set done. q \<noteq> p \<and> \<not> prefix q p"
    and "isMarker (getIn ast p)"
  shows "isStringMarker (getIn cur p) = isStringMarker (getIn ast p) \<and>
         isElementMarker (getIn cur p) = isElementMarker (getIn ast p) \<and>
         ((\<forall>q \<in> set done. \<not> prefix p q) \<longrightarrow> getIn cur p = getIn ast p)"
  using assms
proof (induction "done" arbitrary: cur rule: rev_induct)
  case Nil
  then show ?case by simp
next
  case (snoc x xs)
  from snoc.prems(1) obtain c1 where c1: "in_order (substitute ext translations) xs ast = Inr c1"
    and sub: "substitute ext translations c1 x = Inr cur"
    by (auto simp: in_order_append and_then_Inr)
  from snoc.prems(2) have pre: "\<forall>q \<in> set xs. q \<noteq> p \<and> \<not> prefix q p"
    and x: "x \<noteq> p" "\<not> prefix x p" by auto
  note ih = snoc.IH [OF c1 pre snoc.prems(3)]
  from substitute_success [OF sub] obtain r where
    mx: "isMarker (getIn c1 x)" and set: "setIn c1 x r = Some cur" by blast
  show ?case
  proof (cases "prefix p x")
    case False
    with set x have "getIn cur p = getIn c1 p" by (intro setIn_disjoint)
    with ih False show ?thesis by auto
  next
    case True
    with x obtain rel where rel: "x = p @ rel" "rel \<noteq> []" by (auto simp: prefix_def)
    from setIn_get_prefix [of c1 p rel r cur] set rel obtain n where
      n: "setIn (getIn c1 p) rel r = Some n" "getIn cur p = n" by auto
    have mrel: "isMarker (getIn (getIn c1 p) rel)" using mx rel by (simp add: getIn_append)
    have m1: "isMarker (getIn c1 p)" using ih snoc.prems(3) by (simp add: isMarker_def)
    have "isStringMarker (getIn c1 p) \<Longrightarrow> isStringMarker n"
      using n(1) rel(2) mrel by (rule string_marker_preserved)
    moreover have "isElementMarker (getIn c1 p) \<Longrightarrow> isElementMarker n"
      using n(1) rel(2) mrel by (rule element_marker_preserved)
    ultimately have "isStringMarker n = isStringMarker (getIn c1 p) \<and>
        isElementMarker n = isElementMarker (getIn c1 p)"
      using m1 by (auto simp: isMarker_def dest: markers_exclusive')
    with ih n(2) True show ?thesis by auto
  qed
qed

lemma filter_eq_append_ConsD:
  "filter P xs = us @ a # rest \<Longrightarrow> \<exists>us' r1. xs = us' @ a # r1 \<and> filter P r1 = rest"
proof (induction us arbitrary: xs)
  case Nil
  then have "filter P xs = a # rest" by simp
  from filter_eq_ConsD [OF this] show ?case by metis
next
  case (Cons u us)
  then have "filter P xs = u # (us @ a # rest)" by simp
  from filter_eq_ConsD [OF this]
  obtain w v where xs: "xs = w @ u # v" and v: "us @ a # rest = filter P v" by metis
  from Cons.IH [of v] v obtain us' r1 where "v = us' @ a # r1" "filter P r1 = rest" by auto
  then have "xs = (w @ u # us') @ a # r1 \<and> filter P r1 = rest" using xs by simp
  then show ?case by blast
qed

lemma before_filter: "before (filter P xs) a b \<Longrightarrow> before xs a b"
proof -
  assume "before (filter P xs) a b"
  then obtain us vs ws where f: "filter P xs = us @ a # (vs @ b # ws)"
    unfolding before_def by auto
  from filter_eq_append_ConsD [OF this] obtain us' r1 where
    1: "xs = us' @ a # r1" "filter P r1 = vs @ b # ws" by blast
  from filter_eq_append_ConsD [OF 1(2)] obtain vs' ws' where "r1 = vs' @ b # ws'" by blast
  with 1 show ?thesis unfolding before_def by blast
qed

lemma before_distinct: "distinct xs \<Longrightarrow> before xs a b \<Longrightarrow> before xs b a \<Longrightarrow> False"
proof -
  assume d: "distinct xs" and "before xs a b" and "before xs b a"
  then obtain us vs ws us' vs' ws' where
    1: "xs = us @ a # vs @ b # ws" and 2: "xs = us' @ b # vs' @ a # ws'"
    unfolding before_def by blast
  from d 1 have n: "a \<notin> set us" "a \<notin> set (vs @ b # ws)" "b \<notin> set us" by auto
  from 1 2 have "us @ a # (vs @ b # ws) = (us' @ b # vs') @ a # ws'" by simp
  then have "us = us' @ b # vs'" using append_Cons_eq_iff [OF n(1,2)] by blast
  with n(3) show False by simp
qed

lemma keypaths_of_messages:
  assumes "keypathsForMessageNodesInAst ext ast = Inr keypaths"
  shows "is_coll ast" and "keypaths = filter (\<lambda>keypath. isMarker (getIn ast keypath)) (preorder ast)"
  using assms
  by (auto simp: keypathsForMessageNodesInAst_def allKeypathsInAst_def f_root Let_def and_then_Inr
      split: if_splits)

lemma later_not_ancestor:
  assumes "wf_val ast" and "keypathsForMessageNodesInAst ext ast = Inr (pre @ p # post)"
    and "q \<in> set post"
  shows "q \<noteq> p \<and> \<not> prefix q p"
proof -
  let ?ks = "pre @ p # post"
  note k = keypaths_of_messages [OF assms(2)]
  have d: "distinct (preorder ast)" using assms(1) by (rule distinct_preorder)
  then have dk: "distinct ?ks" using k(2) by (metis distinct_filter)
  then have ne: "q \<noteq> p" using assms(3) by auto
  from assms(3) obtain vs ws where "post = vs @ q # ws" by (auto dest: split_list)
  then have "before ?ks p q" unfolding before_def by blast
  then have pq: "before (preorder ast) p q" unfolding k(2) by (rule before_filter)
  have pin: "p \<in> set (preorder ast)" "q \<in> set (preorder ast)"
  proof -
    have "set ?ks \<subseteq> set (preorder ast)" unfolding k(2) by auto
    with assms(3) show "p \<in> set (preorder ast)" "q \<in> set (preorder ast)" by auto
  qed
  have "\<not> strict_prefix q p"
  proof
    assume "strict_prefix q p"
    then have "before (preorder ast) q p" using parent_before(1) [OF assms(1)] pin by blast
    with d pq show False by (rule before_distinct)
  qed
  with ne show ?thesis by (auto simp: strict_prefix_def)
qed



end
